theory Spec2Isabelle
  imports Complex_Main "HOL-Library.Log_Nat"
begin

section \<open>StageGL: the WebGL batching renderer of createjs-es6\<close>

text \<open>
  A shallow embedding of \<^verbatim>\<open>src/utils/EaselJS/display/StageGL.js\<close> (and of the two
  places of \<^verbatim>\<open>filters/BitmapCache.js\<close> and \<^verbatim>\<open>display/AJStageGL.js\<close> that call into it).
  Names follow the source without the leading underscore. JavaScript numbers are doubles:
  the finite ones are rationals, and every arithmetic operation rounds its exact result
  to the nearest double. Counters and sizes are naturals or integers.
\<close>

subsection \<open>JavaScript values and errors\<close>

text \<open>
  A JavaScript number as far as the \<^verbatim>\<open>autoPurge\<close> setter can tell numbers apart:
  \<^verbatim>\<open>NaN\<close>, the two infinities and the finite values.
\<close>

datatype jsnumber = NaN | NegInfinity | Number rat | PosInfinity

text \<open>The global \<^verbatim>\<open>isNaN\<close> on a number.\<close>

definition isNaN :: "jsnumber \<Rightarrow> bool" where
  "isNaN v = (v = NaN)"

text \<open>\<^verbatim>\<open>Math.max(a, b)\<close>: \<^verbatim>\<open>NaN\<close> if either argument is, else the larger.\<close>

fun mathMax :: "jsnumber \<Rightarrow> jsnumber \<Rightarrow> jsnumber" where
  "mathMax NaN _ = NaN"
| "mathMax _ NaN = NaN"
| "mathMax PosInfinity _ = PosInfinity"
| "mathMax _ PosInfinity = PosInfinity"
| "mathMax NegInfinity b = b"
| "mathMax a NegInfinity = a"
| "mathMax (Number a) (Number b) = Number (max a b)"

text \<open>\<^verbatim>\<open>a >= b\<close> on numbers: false as soon as one side is \<^verbatim>\<open>NaN\<close>.\<close>

fun jsGreaterEq :: "jsnumber \<Rightarrow> jsnumber \<Rightarrow> bool" where
  "jsGreaterEq NaN _ = False"
| "jsGreaterEq _ NaN = False"
| "jsGreaterEq PosInfinity _ = True"
| "jsGreaterEq _ NegInfinity = True"
| "jsGreaterEq NegInfinity _ = False"
| "jsGreaterEq _ PosInfinity = False"
| "jsGreaterEq (Number a) (Number b) = (b \<le> a)"

text \<open>What the source throws: the two built-in errors it can run into, and its own
  \<^verbatim>\<open>throw "..."\<close> of a string.\<close>

datatype jserror = ReferenceError string | TypeError | Thrown string

subsection \<open>Double and single precision arithmetic\<close>

text \<open>
  Rounding of a rational to a binary floating-point format with \<open>p\<close> significant bits
  and exponents from \<open>emin\<close> to \<open>emax\<close>, to nearest, ties to the even significand
  (IEEE 754): \<open>ilog2 x\<close> is the exponent of a positive \<open>x\<close> (the largest \<open>e\<close> with
  \<open>2 ^ e \<le> x\<close>), the spacing of the format at \<open>x\<close> is \<open>2 ^ (max e emin - p + 1)\<close>
  (which covers the subnormal numbers), and a result beyond the largest finite number is
  an infinity. The two zeros of the format are one value here.
\<close>

definition pow2 :: "int \<Rightarrow> rat" where
  "pow2 k = (if 0 \<le> k then 2 ^ nat k else 1 / 2 ^ nat (- k))"

definition ilog2 :: "rat \<Rightarrow> int" where
  "ilog2 x =
     (case quotient_of x of
        (a, b) \<Rightarrow>
          (let d = bitlen a - bitlen b
           in if of_int b * pow2 d \<le> of_int a then d else d - 1))"

definition roundHalfEven :: "rat \<Rightarrow> int" where
  "roundHalfEven q =
     (let f = \<lfloor>q\<rfloor>; d = q - of_int f
      in if d < 1 / 2 then f else if 1 / 2 < d then f + 1 else if even f then f else f + 1)"

definition roundBinary :: "nat \<Rightarrow> int \<Rightarrow> int \<Rightarrow> rat \<Rightarrow> jsnumber" where
  "roundBinary p emin emax x =
     (if x = 0 then Number 0
      else
        (let e = max (ilog2 \<bar>x\<bar>) emin;
             q = pow2 (e - int p + 1);
             r = of_int (roundHalfEven (\<bar>x\<bar> / q)) * q
         in if emax < ilog2 r
            then (if 0 < x then PosInfinity else NegInfinity)
            else Number (if 0 < x then r else - r)))"

text \<open>The nearest double (binary64) and the nearest single (binary32).\<close>

definition toDouble :: "rat \<Rightarrow> jsnumber" where
  "toDouble x = roundBinary 53 (- 1022) 1023 x"

definition toFloat32 :: "rat \<Rightarrow> jsnumber" where
  "toFloat32 x = roundBinary 24 (- 126) 127 x"

text \<open>
  What a store into a \<^verbatim>\<open>Float32Array\<close> keeps of a number (\<^verbatim>\<open>Math.fround\<close>).
\<close>

fun fround :: "jsnumber \<Rightarrow> jsnumber" where
  "fround (Number x) = toFloat32 x"
| "fround v = v"

text \<open>
  The operators \<^verbatim>\<open>+\<close>, unary \<^verbatim>\<open>-\<close>, binary \<^verbatim>\<open>-\<close>, \<^verbatim>\<open>*\<close> and \<^verbatim>\<open>/\<close> on numbers.
  A zero divisor counts as the positive zero.
\<close>

fun jsAdd :: "jsnumber \<Rightarrow> jsnumber \<Rightarrow> jsnumber" where
  "jsAdd NaN _ = NaN"
| "jsAdd _ NaN = NaN"
| "jsAdd PosInfinity NegInfinity = NaN"
| "jsAdd NegInfinity PosInfinity = NaN"
| "jsAdd PosInfinity _ = PosInfinity"
| "jsAdd _ PosInfinity = PosInfinity"
| "jsAdd NegInfinity _ = NegInfinity"
| "jsAdd _ NegInfinity = NegInfinity"
| "jsAdd (Number a) (Number b) = toDouble (a + b)"

fun jsNeg :: "jsnumber \<Rightarrow> jsnumber" where
  "jsNeg NaN = NaN"
| "jsNeg PosInfinity = NegInfinity"
| "jsNeg NegInfinity = PosInfinity"
| "jsNeg (Number a) = Number (- a)"

definition jsSub :: "jsnumber \<Rightarrow> jsnumber \<Rightarrow> jsnumber" where
  "jsSub a b = jsAdd a (jsNeg b)"

text \<open>The sign of a number that is not \<^verbatim>\<open>NaN\<close>: negative, zero or positive.\<close>

fun jsSign :: "jsnumber \<Rightarrow> int" where
  "jsSign (Number a) = (if a < 0 then - 1 else if a = 0 then 0 else 1)"
| "jsSign PosInfinity = 1"
| "jsSign NegInfinity = - 1"
| "jsSign NaN = 0"

definition signedInfinity :: "int \<Rightarrow> jsnumber" where
  "signedInfinity sg = (if sg = 0 then NaN else if 0 < sg then PosInfinity else NegInfinity)"

fun jsMul :: "jsnumber \<Rightarrow> jsnumber \<Rightarrow> jsnumber" where
  "jsMul NaN _ = NaN"
| "jsMul _ NaN = NaN"
| "jsMul (Number a) (Number b) = toDouble (a * b)"
| "jsMul a b = signedInfinity (jsSign a * jsSign b)"

fun jsDiv :: "jsnumber \<Rightarrow> jsnumber \<Rightarrow> jsnumber" where
  "jsDiv NaN _ = NaN"
| "jsDiv _ NaN = NaN"
| "jsDiv (Number a) (Number b) =
     (if b = 0 then signedInfinity (jsSign (Number a)) else toDouble (a / b))"
| "jsDiv (Number a) _ = Number 0"
| "jsDiv a (Number b) = signedInfinity (jsSign a * (if b < 0 then - 1 else 1))"
| "jsDiv _ _ = NaN"

text \<open>\<^verbatim>\<open>a > b\<close> and \<^verbatim>\<open>a < b\<close> on numbers: false as soon as one side is \<^verbatim>\<open>NaN\<close>.\<close>

fun jsGreater :: "jsnumber \<Rightarrow> jsnumber \<Rightarrow> bool" where
  "jsGreater NaN _ = False"
| "jsGreater _ NaN = False"
| "jsGreater (Number a) (Number b) = (b < a)"
| "jsGreater PosInfinity b = (b \<noteq> PosInfinity)"
| "jsGreater a NegInfinity = (a \<noteq> NegInfinity)"
| "jsGreater _ _ = False"

definition jsLess :: "jsnumber \<Rightarrow> jsnumber \<Rightarrow> bool" where
  "jsLess a b = jsGreater b a"

subsection \<open>The autoPurge property (StageGL.js 632-641, constructor 135-199)\<close>

text \<open>
  \<^verbatim>\<open>set autoPurge(value)\<close>: the value it stores into \<^verbatim>\<open>_autoPurge\<close>.
  \<^verbatim>\<open>value !== -1\<close> is strict inequality with the number \<open>-1\<close>.
\<close>

definition autoPurge_set :: "jsnumber \<Rightarrow> jsnumber" where
  "autoPurge_set v =
     (let v1 = (if isNaN v then Number 1200 else v);
          v2 = (if v1 \<noteq> Number (- 1) then mathMax v1 (Number 10) else v1)
      in v2)"

text \<open>
  The constructor destructures \<^verbatim>\<open>autoPurge = 1200\<close> from its options (the default
  applies when the option is \<^verbatim>\<open>undefined\<close>, here \<open>None\<close>) and assigns it through
  the setter.
\<close>

definition constructor_autoPurge :: "jsnumber option \<Rightarrow> jsnumber" where
  "constructor_autoPurge opt =
     autoPurge_set (case opt of None \<Rightarrow> Number 1200 | Some v \<Rightarrow> v)"

subsection \<open>Geometry and vertices\<close>

text \<open>
  Modelled from the spec: \<^verbatim>\<open>geom/Matrix2D.js\<close> is not under src/. A display object
  carries its local matrix (what \<^verbatim>\<open>appendTransform\<close> builds from its position, scale,
  rotation, skew and registration point, or its \<^verbatim>\<open>transformMatrix\<close>), and the
  accumulated transform is "parent composed with local", the affine product below.
\<close>

record matrix2D =
  m_a :: jsnumber
  m_b :: jsnumber
  m_c :: jsnumber
  m_d :: jsnumber
  m_tx :: jsnumber
  m_ty :: jsnumber

definition identityMatrix :: matrix2D where
  "identityMatrix =
     \<lparr>m_a = Number 1, m_b = Number 0, m_c = Number 0, m_d = Number 1,
      m_tx = Number 0, m_ty = Number 0\<rparr>"

definition appendMatrix :: "matrix2D \<Rightarrow> matrix2D \<Rightarrow> matrix2D" where
  "appendMatrix p l =
     \<lparr>m_a = jsAdd (jsMul (m_a p) (m_a l)) (jsMul (m_c p) (m_b l)),
      m_b = jsAdd (jsMul (m_b p) (m_a l)) (jsMul (m_d p) (m_b l)),
      m_c = jsAdd (jsMul (m_a p) (m_c l)) (jsMul (m_c p) (m_d l)),
      m_d = jsAdd (jsMul (m_b p) (m_c l)) (jsMul (m_d p) (m_d l)),
      m_tx = jsAdd (jsAdd (jsMul (m_a p) (m_tx l)) (jsMul (m_c p) (m_ty l))) (m_tx p),
      m_ty = jsAdd (jsAdd (jsMul (m_b p) (m_tx l)) (jsMul (m_d p) (m_ty l))) (m_ty p)\<rparr>"

record rect =
  r_x :: jsnumber
  r_y :: jsnumber
  r_width :: jsnumber
  r_height :: jsnumber

text \<open>A UV rectangle \<^verbatim>\<open>{t, l, b, r}\<close>.\<close>

record uvRect =
  uv_t :: jsnumber
  uv_l :: jsnumber
  uv_b :: jsnumber
  uv_r :: jsnumber

text \<open>\<^verbatim>\<open>StageGL.UV_RECT = {t:1, l:0, b:0, r:1}\<close> (StageGL.js 2406).\<close>

definition UV_RECT :: uvRect where
  "UV_RECT = \<lparr>uv_t = Number 1, uv_l = Number 0, uv_b = Number 0, uv_r = Number 1\<rparr>"

text \<open>
  One vertex of the batch: the default configuration keeps position, uv, texture index
  and alpha in four parallel \<^verbatim>\<open>Float32Array\<close>s indexed by the vertex number; the
  record is one index of the four, so its numbers are singles. \<open>v_texture\<close> is
  \<^verbatim>\<open>texture._activeIndex\<close>, a slot number (which a single holds exactly) or
  \<^verbatim>\<open>undefined\<close>.
\<close>

record vertex =
  v_x :: jsnumber
  v_y :: jsnumber
  v_u :: jsnumber
  v_v :: jsnumber
  v_texture :: "nat option"
  v_alpha :: jsnumber

text \<open>
  One vertex as the assignments of StageGL.js 2126-2190 store it: the position
  \<^verbatim>\<open>sx*iMtx.a + sy*iMtx.c + iMtx.tx\<close>, \<^verbatim>\<open>sx*iMtx.b + sy*iMtx.d + iMtx.ty\<close>, the uv
  pair, the texture index and the alpha, each rounded by the store into its
  \<^verbatim>\<open>Float32Array\<close>.
\<close>

definition mkVertex ::
  "matrix2D \<Rightarrow> jsnumber \<Rightarrow> jsnumber \<Rightarrow> jsnumber \<Rightarrow> jsnumber \<Rightarrow> nat option \<Rightarrow> jsnumber \<Rightarrow> vertex" where
  "mkVertex m sx sy u v ti al =
     \<lparr>v_x = fround (jsAdd (jsAdd (jsMul sx (m_a m)) (jsMul sy (m_c m))) (m_tx m)),
      v_y = fround (jsAdd (jsAdd (jsMul sx (m_b m)) (jsMul sy (m_d m))) (m_ty m)),
      v_u = fround u, v_v = fround v, v_texture = ti, v_alpha = fround al\<rparr>"

text \<open>
  The six vertices \<^verbatim>\<open>_appendToBatch\<close> writes for one card (StageGL.js 2126-2190), in
  the order of the source: (L,T) (L,B) (R,T) (L,B) (R,T) (R,B), with the uv pairs
  (l,t) (l,b) (r,t) (l,b) (r,t) (r,b).
\<close>

definition cardVertices ::
  "matrix2D \<Rightarrow> jsnumber \<Rightarrow> jsnumber \<Rightarrow> jsnumber \<Rightarrow> jsnumber \<Rightarrow> uvRect \<Rightarrow> nat option \<Rightarrow> jsnumber
     \<Rightarrow> vertex list" where
  "cardVertices m subL subT subR subB uv ti al =
     [mkVertex m subL subT (uv_l uv) (uv_t uv) ti al,
      mkVertex m subL subB (uv_l uv) (uv_b uv) ti al,
      mkVertex m subR subT (uv_r uv) (uv_t uv) ti al,
      mkVertex m subL subB (uv_l uv) (uv_b uv) ti al,
      mkVertex m subR subT (uv_r uv) (uv_t uv) ti al,
      mkVertex m subR subB (uv_r uv) (uv_b uv) ti al]"

text \<open>
  The uv rectangle of a bitmap with a \<^verbatim>\<open>sourceRect\<close> (StageGL.js 2080-2083), for an
  image \<open>w\<close> wide and \<open>h\<close> high.
\<close>

definition sourceRectUV :: "rect \<Rightarrow> jsnumber \<Rightarrow> jsnumber \<Rightarrow> uvRect" where
  "sourceRectUV src w h =
     \<lparr>uv_t = jsSub (Number 1) (jsDiv (r_y src) h),
      uv_l = jsDiv (r_x src) w,
      uv_b = jsSub (Number 1) (jsDiv (jsAdd (r_y src) (r_height src)) h),
      uv_r = jsDiv (jsAdd (r_x src) (r_width src)) w\<rparr>"

text \<open>The uv pairs of a list of vertices.\<close>

definition uvPairs :: "vertex list \<Rightarrow> (jsnumber \<times> jsnumber) list" where
  "uvPairs vs = map (\<lambda>v. (v_u v, v_v v)) vs"

subsection \<open>Images, textures, shaders\<close>

type_synonym texRef = nat
type_synonym imgRef = nat

text \<open>
  What \<^verbatim>\<open>_loadTextureImage\<close> tells apart in a source: an image element with its
  \<^verbatim>\<open>src\<close>, a canvas element, anything else.
\<close>

datatype sourceKind = ImageElement string | CanvasElement | InvalidSource

text \<open>
  The key of \<^verbatim>\<open>_textureIDs\<close>: the \<^verbatim>\<open>src\<close> of an image, or \<^verbatim>\<open>"canvas_" + n\<close>,
  kept symbolic.
\<close>

datatype srcPath = SrcUrl string | CanvasKey int

text \<open>
  An image or canvas object with the properties StageGL staples onto it
  (\<^verbatim>\<open>_storeID\<close>, \<^verbatim>\<open>_drawID\<close>, \<^verbatim>\<open>_invalid\<close>, \<^verbatim>\<open>_isCanvas\<close>); \<open>None\<close> is
  \<^verbatim>\<open>undefined\<close>. \<open>img_ready\<close> is \<^verbatim>\<open>image.complete || image.naturalWidth\<close>.
\<close>

record image =
  img_kind :: sourceKind
  img_width :: nat
  img_height :: nat
  img_ready :: bool
  img_storeID :: "nat option"
  img_drawID :: "int option"
  img_invalid :: "bool option"
  img_isCanvas :: bool

text \<open>
  A WebGL texture object with the properties StageGL staples onto it. \<open>tex_storeID\<close> is
  \<^verbatim>\<open>undefined\<close>, \<open>-1\<close> (the filler texture) or an index of the dictionary.
  \<open>tex_deleted\<close> records \<^verbatim>\<open>gl.deleteTexture\<close>.
\<close>

record texture =
  tex_storeID :: "int option"
  tex_activeIndex :: "nat option"
  tex_batchID :: "nat option"
  tex_drawID :: "int option"
  tex_imageData :: "imgRef list option"
  tex_frameBuffer :: bool
  tex_deleted :: bool

definition blankTexture :: texture where
  "blankTexture =
     \<lparr>tex_storeID = None, tex_activeIndex = None, tex_batchID = None, tex_drawID = None,
      tex_imageData = None, tex_frameBuffer = False, tex_deleted = False\<rparr>"

datatype config = DefaultConfig | MicroConfig

datatype shaderRef = NoShader | MainShader | CoverShader string

text \<open>\<^verbatim>\<open>this\<close> (the canvas) or a texture with a frame buffer, as a render target.\<close>

datatype target = StageCanvas | RenderTexture texRef

text \<open>
  An entry of the table \<^verbatim>\<open>shaders.blendSources\<close>: only whether it names a fragment
  shader matters to the control flow (\<^verbatim>\<open>blendSrc.shader\<close>); the blend factors are
  handed to WebGL unread.
\<close>

record blendSrc =
  bs_shader :: "string option"

text \<open>An entry of \<^verbatim>\<open>_builtShaders\<close>.\<close>

record shaderData =
  sd_immediate :: bool
  sd_shader :: shaderRef

datatype jsvalue = JSUndefined | JSNumber jsnumber | JSObject

text \<open>
  The host of a StageGL: what the WebGL context answers, the table
  \<^verbatim>\<open>shaders.blendSources\<close> of the module \<^verbatim>\<open>../gl/shaders\<close> (not under src/, so a
  parameter), and the properties of the global object, where an identifier bound neither
  in a function nor in its module is looked up.
  \<open>batchShaderLinks n\<close>: \<^verbatim>\<open>_fetchShaderProgram(false)\<close> compiles and links with
  \<^verbatim>\<open>_batchTextureCount = n\<close>; \<open>coverShaderLinks m\<close>: the cover shader of blend mode
  \<open>m\<close> does.
\<close>

record host =
  MAX_TEXTURE_IMAGE_UNITS :: nat
  MAX_COMBINED_TEXTURE_IMAGE_UNITS :: nat
  batchShaderLinks :: "nat \<Rightarrow> bool"
  coverShaderLinks :: "string \<Rightarrow> bool"
  createTextureOk :: bool
  createFramebufferOk :: bool
  blendSources :: "string \<rightharpoonup> blendSrc"
  globalScope :: "string \<rightharpoonup> jsvalue"

subsection \<open>The renderer state\<close>

text \<open>
  One \<^verbatim>\<open>gl.drawArrays(gl.TRIANGLES, 0, count)\<close> of \<^verbatim>\<open>_renderBatch\<close>: the reason
  label, the vertex count, the render mode, program and attribute configuration in force,
  and the vertices the call reads (the first \<open>count\<close> of the active arrays).
\<close>

record drawCall =
  dc_reason :: string
  dc_count :: nat
  dc_mode :: string
  dc_shader :: shaderRef
  dc_config :: config
  dc_vertices :: "vertex list"

text \<open>
  What a call-count spy on the renderer sees: a batch draw, a cover draw
  (\<^verbatim>\<open>_renderCover\<close>), a card appended (the render mode in force, the cursor after the
  append and the six vertices), a texture resolved for an image (the "calculate texture"
  block of \<^verbatim>\<open>_appendToBatch\<close>).
\<close>

datatype event =
    DrawArrays drawCall
  | DrawCover string shaderRef
  | AppendCard string nat "vertex list"
  | ResolveTexture imgRef

text \<open>
  The fields of StageGL the batching reads and writes. The objects it shares by reference
  (textures, images) live in the stores \<open>textures\<close> and \<open>images\<close>; \<open>nextTexture\<close> is
  the next fresh texture. \<open>history\<close> is the spy's log, newest event first.
\<close>

record stage =
  directDraw :: bool
  stageAlpha :: jsnumber
  maxBatchVertexCount :: nat
  batchVertexCount :: nat
  batchID :: nat
  drawID :: int
  renderPerDraw :: nat
  batchReason :: string
  renderMode :: string
  immediateRender :: bool
  activeShader :: shaderRef
  activeConfig :: config
  defaultArray :: "vertex list"
  microArray :: "vertex list"
  builtShaders :: "string \<rightharpoonup> shaderData"
  gpuTextureCount :: nat
  gpuTextureMax :: nat
  batchTextureCount :: nat
  batchTextures :: "texRef list"
  baseTextures :: "texRef list"
  lastTextureInsert :: int
  slotBlacklist :: "nat \<Rightarrow> bool"
  textureDictionary :: "texRef option list"
  textureIDs :: "srcPath \<rightharpoonup> nat"
  lastTrackedCanvas :: int
  textures :: "texRef \<Rightarrow> texture"
  images :: "imgRef \<Rightarrow> image"
  nextTexture :: texRef
  batchTextureOutput :: "target option"
  batchTextureConcat :: "target option"
  batchTextureTemp :: "target option"
  bufferTextureOutput :: "target option"
  viewportWidth :: rat
  viewportHeight :: rat
  history :: "event list"

text \<open>
  The constructor's \<^verbatim>\<open>_maxBatchVertexCount\<close> (StageGL.js 264-272):
  \<^verbatim>\<open>INDICIES_PER_CARD * max(min(batchSize, DEFAULT_MAX_BATCH_SIZE), DEFAULT_MIN_BATCH_SIZE)\<close>.
\<close>

definition INDICIES_PER_CARD :: nat where
  "INDICIES_PER_CARD = 6"

definition DEFAULT_MAX_BATCH_SIZE :: int where
  "DEFAULT_MAX_BATCH_SIZE = 10920"

definition DEFAULT_MIN_BATCH_SIZE :: int where
  "DEFAULT_MIN_BATCH_SIZE = 170"

definition constructor_maxBatchVertexCount :: "int \<Rightarrow> nat" where
  "constructor_maxBatchVertexCount batchSize =
     INDICIES_PER_CARD * nat (max (min batchSize DEFAULT_MAX_BATCH_SIZE) DEFAULT_MIN_BATCH_SIZE)"

subsection \<open>Flushing the batch\<close>

text \<open>The arrays of the active attribute configuration.\<close>

definition activeArray :: "stage \<Rightarrow> vertex list" where
  "activeArray s = (case activeConfig s of DefaultConfig \<Rightarrow> defaultArray s | MicroConfig \<Rightarrow> microArray s)"

text \<open>
  \<^verbatim>\<open>_renderBatch\<close> (StageGL.js 2252-2297): nothing when the cursor is at zero; else one
  draw call over the first \<^verbatim>\<open>_batchVertexCount\<close> vertices, the cursor back to zero and
  the batch counter incremented.
\<close>

definition renderBatch :: "stage \<Rightarrow> stage" where
  "renderBatch s =
     (if batchVertexCount s \<le> 0 then s
      else s\<lparr>renderPerDraw := renderPerDraw s + 1,
             history := DrawArrays
               \<lparr>dc_reason = batchReason s, dc_count = batchVertexCount s, dc_mode = renderMode s,
                dc_shader = activeShader s, dc_config = activeConfig s,
                dc_vertices = take (batchVertexCount s) (activeArray s)\<rparr> # history s,
             batchVertexCount := 0,
             batchID := batchID s + 1\<rparr>)"

text \<open>\<^verbatim>\<open>_renderCover\<close> (StageGL.js 2304-2331).\<close>

definition renderCover :: "stage \<Rightarrow> stage" where
  "renderCover s =
     s\<lparr>renderPerDraw := renderPerDraw s + 1,
       history := DrawCover (batchReason s) (activeShader s) # history s,
       batchID := batchID s + 1\<rparr>"

subsection \<open>Switching the render mode\<close>

text \<open>
  \<^verbatim>\<open>_updateRenderMode\<close> (StageGL.js 1794-1848). The mode switches only at the end, after
  the pending vertices were flushed with the reason \<^verbatim>\<open>shaderSwap\<close>; it returns without
  a switch when the mode is the current one, when the shader of a new mode does not build
  (the \<^verbatim>\<open>catch\<close>), and when the mode needs a cover shader while \<^verbatim>\<open>directDraw\<close> is on.
\<close>

text \<open>A string-valued property used as a condition: \<^verbatim>\<open>undefined\<close> and \<^verbatim>\<open>""\<close> are falsy.\<close>

definition truthy :: "string option \<Rightarrow> bool" where
  "truthy x = (x \<noteq> None \<and> x \<noteq> Some [])"

definition switchRenderMode :: "string \<Rightarrow> shaderData \<Rightarrow> stage \<Rightarrow> stage" where
  "switchRenderMode newMode sd s =
     (if sd_immediate sd \<and> directDraw s then s
      else
        let s1 = (if sd_immediate sd then s\<lparr>activeConfig := MicroConfig\<rparr> else s);
            s2 = renderBatch (s1\<lparr>batchReason := ''shaderSwap''\<rparr>)
        in s2\<lparr>renderMode := newMode, immediateRender := sd_immediate sd\<rparr>)"

definition updateRenderMode :: "host \<Rightarrow> string option \<Rightarrow> stage \<Rightarrow> stage" where
  "updateRenderMode h requested s =
     (let asked = (case requested of None \<Rightarrow> ''source-over'' | Some m \<Rightarrow> m);
          newMode = (case blendSources h asked of None \<Rightarrow> ''source-over'' | Some b \<Rightarrow> asked);
          blend = blendSources h newMode
      in if renderMode s = newMode then s
         else
           (case builtShaders s newMode of
              Some sd \<Rightarrow> switchRenderMode newMode sd s
            | None \<Rightarrow>
               (case blend of
                  None \<Rightarrow> s\<lparr>builtShaders := (builtShaders s)(newMode := None)\<rparr>
                | Some b \<Rightarrow>
                    if truthy (bs_shader b) \<or> builtShaders s ''source-over'' = None
                    then
                      (if coverShaderLinks h newMode
                       then
                         (let sd = \<lparr>sd_immediate = (bs_shader b \<noteq> None),
                                    sd_shader = CoverShader newMode\<rparr>
                          in switchRenderMode newMode sd
                               (s\<lparr>builtShaders := (builtShaders s)(newMode \<mapsto> sd)\<rparr>))
                       else s\<lparr>builtShaders := (builtShaders s)(newMode := None)\<rparr>)
                    else
                      (let sd = \<lparr>sd_immediate = False,
                                 sd_shader = (case builtShaders s ''source-over'' of
                                                Some so \<Rightarrow> sd_shader so | None \<Rightarrow> NoShader)\<rparr>
                       in switchRenderMode newMode sd
                            (s\<lparr>builtShaders := (builtShaders s)(newMode \<mapsto> sd)\<rparr>)))))"

subsection \<open>Texture slots\<close>

text \<open>\<^verbatim>\<open>this._textureDictionary[id]\<close>, \<^verbatim>\<open>undefined\<close> out of range.\<close>

definition dictLookup :: "stage \<Rightarrow> nat option \<Rightarrow> texRef option" where
  "dictLookup s sid =
     (case sid of
        None \<Rightarrow> None
      | Some i \<Rightarrow> if i < length (textureDictionary s) then textureDictionary s ! i else None)"

text \<open>
  \<^verbatim>\<open>_updateTextureImageData\<close> (StageGL.js 1624-1669), as far as the fields of the model
  go: nothing for a source that is not loaded; a \<^verbatim>\<open>TypeError\<close> when the image's
  \<^verbatim>\<open>_storeID\<close> names no texture; else the pixels are uploaded and a defined
  \<^verbatim>\<open>_invalid\<close> flag is cleared.
\<close>

definition updateTextureImageData :: "imgRef \<Rightarrow> stage \<Rightarrow> jserror + stage" where
  "updateTextureImageData i s =
     (let im = images s i in
      if \<not> (img_ready im \<or> img_isCanvas im) then Inr s
      else
        (case dictLookup s (img_storeID im) of
           None \<Rightarrow> Inl TypeError
         | Some t \<Rightarrow>
             Inr (if img_invalid im \<noteq> None
                  then s\<lparr>images := (images s)(i := im\<lparr>img_invalid := Some False\<rparr>)\<rparr>
                  else s)))"

text \<open>
  The upload both branches of \<^verbatim>\<open>_insertTextureInBatch\<close> share: the first tracked
  source of the texture, if it is a canvas never validated or is flagged invalid.
\<close>

definition refreshTexture :: "texRef \<Rightarrow> stage \<Rightarrow> jserror + stage" where
  "refreshTexture t s =
     (case tex_imageData (textures s t) of
        None \<Rightarrow> Inr s
      | Some [] \<Rightarrow> Inr s
      | Some (i # rest) \<Rightarrow>
          (let im = images s i in
           if (img_invalid im = None \<and> img_isCanvas im) \<or> img_invalid im = Some True
           then updateTextureImageData i s
           else Inr s))"

text \<open>\<^verbatim>\<open>this._batchTextures[texture._activeIndex] === texture\<close>.\<close>

definition occupiesRecordedSlot :: "stage \<Rightarrow> texRef \<Rightarrow> bool" where
  "occupiesRecordedSlot s t =
     (case tex_activeIndex (textures s t) of
        None \<Rightarrow> False
      | Some k \<Rightarrow> k < length (batchTextures s) \<and> batchTextures s ! k = t)"

text \<open>
  The test of the slot scan:
  \<^verbatim>\<open>this._batchTextures[look]._batchID !== this._batchID && !this._slotBlacklist[look]\<close>.
\<close>

definition slotEvictable :: "stage \<Rightarrow> nat \<Rightarrow> bool" where
  "slotEvictable s look =
     (tex_batchID (textures s (batchTextures s ! look)) \<noteq> Some (batchID s)
      \<and> \<not> slotBlacklist s look)"

text \<open>
  The \<^verbatim>\<open>do ... while (look !== start)\<close> loop of \<^verbatim>\<open>_insertTextureInBatch\<close>
  (StageGL.js 1685-1691): \<open>Inr (Some k)\<close> when it breaks with \<^verbatim>\<open>found = k\<close>,
  \<open>Inr None\<close> when it comes back to \<open>start\<close> with \<^verbatim>\<open>found = -1\<close>. Reading a slot
  that does not exist is a \<^verbatim>\<open>TypeError\<close> (\<^verbatim>\<open>undefined._batchID\<close>); \<open>start\<close> and
  \<open>look\<close> are remainders modulo the slot count, so they stay below it.
\<close>

function slotScan :: "stage \<Rightarrow> nat \<Rightarrow> nat \<Rightarrow> jserror + nat option" where
  "slotScan s start look =
     (if \<not> (start < batchTextureCount s \<and> look < batchTextureCount s
             \<and> look < length (batchTextures s))
      then Inl TypeError
      else if slotEvictable s look then Inr (Some look)
      else if (look + 1) mod batchTextureCount s \<noteq> start
      then slotScan s start ((look + 1) mod batchTextureCount s)
      else Inr None)"
  by pat_completeness auto
termination
proof (relation "measure (\<lambda>(s, start, look).
    if look < start then start - look else start + batchTextureCount s - look)")
  show "wf (measure (\<lambda>(s, start, look).
    if look < start then start - look else start + batchTextureCount s - look))"
    by simp
next
  fix s :: stage and start look :: nat
  assume a: "\<not> \<not> (start < batchTextureCount s \<and> look < batchTextureCount s
             \<and> look < length (batchTextures s))"
    and n: "(look + 1) mod batchTextureCount s \<noteq> start"
  from a have st: "start < batchTextureCount s" and lk: "look < batchTextureCount s"
    by auto
  show "((s, start, (look + 1) mod batchTextureCount s), (s, start, look))
        \<in> measure (\<lambda>(s, start, look).
            if look < start then start - look else start + batchTextureCount s - look)"
  proof (cases "look + 1 < batchTextureCount s")
    case True
    then have m: "(look + 1) mod batchTextureCount s = look + 1" by simp
    with n have "look + 1 \<noteq> start" by simp
    with m st lk show ?thesis by auto
  next
    case False
    with lk have "look + 1 = batchTextureCount s" by simp
    then have m: "(look + 1) mod batchTextureCount s = 0" by simp
    with n have "0 < start" by simp
    with m st lk \<open>look + 1 = batchTextureCount s\<close> show ?thesis by auto
  qed
qed

declare slotScan.simps [simp del]

text \<open>
  \<^verbatim>\<open>_insertTextureInBatch\<close> (StageGL.js 1678-1723). The slot count zero makes
  \<^verbatim>\<open>start\<close> \<^verbatim>\<open>NaN\<close> and the first slot read a \<^verbatim>\<open>TypeError\<close>.
  \<^verbatim>\<open>_lastTextureInsert\<close> is \<open>-1\<close> or a slot index, so the remainder is that of
  naturals.
\<close>

definition setSlot :: "texRef \<Rightarrow> nat \<Rightarrow> stage \<Rightarrow> stage" where
  "setSlot t found s =
     s\<lparr>batchTextures := (batchTextures s)[found := t],
       textures := (textures s)(t := (textures s t)\<lparr>tex_activeIndex := Some found\<rparr>)\<rparr>"

definition stampTexture :: "texRef \<Rightarrow> stage \<Rightarrow> stage" where
  "stampTexture t s =
     s\<lparr>textures := (textures s)
          (t := (textures s t)\<lparr>tex_drawID := Some (drawID s), tex_batchID := Some (batchID s)\<rparr>)\<rparr>"

definition slotStart :: "stage \<Rightarrow> nat" where
  "slotStart s = nat (lastTextureInsert s + 1) mod batchTextureCount s"

definition insertTextureInBatch :: "texRef \<Rightarrow> stage \<Rightarrow> jserror + stage" where
  "insertTextureInBatch t s =
     (if \<not> occupiesRecordedSlot s t then
        (if batchTextureCount s = 0 then Inl TypeError
         else
           (case slotScan s (slotStart s) (slotStart s) of
              Inl e \<Rightarrow> Inl e
            | Inr r \<Rightarrow>
                (let s1 = (case r of
                             Some k \<Rightarrow> s
                           | None \<Rightarrow> renderBatch (s\<lparr>batchReason := ''textureOverflow''\<rparr>));
                     found = (case r of Some k \<Rightarrow> k | None \<Rightarrow> slotStart s)
                 in case refreshTexture t (setSlot t found s1) of
                      Inl e \<Rightarrow> Inl e
                    | Inr s2 \<Rightarrow> Inr (stampTexture t (s2\<lparr>lastTextureInsert := int found\<rparr>)))))
      else if tex_drawID (textures s t) \<noteq> Some (drawID s) then
        (case refreshTexture t s of
           Inl e \<Rightarrow> Inl e
         | Inr s2 \<Rightarrow> Inr (stampTexture t s2))
      else Inr (stampTexture t s))"

subsection \<open>Creating and registering textures\<close>

text \<open>
  \<^verbatim>\<open>getBaseTexture\<close> (StageGL.js 1025-1035): a fresh texture; when
  \<^verbatim>\<open>gl.createTexture()\<close> answers \<^verbatim>\<open>null\<close>, \<^verbatim>\<open>resizeTexture\<close> reads
  \<^verbatim>\<open>null.width\<close>, a \<^verbatim>\<open>TypeError\<close>. \<^verbatim>\<open>_getSafeTexture\<close> (1235-1246) calls it and
  so never sees the falsy texture its fallback tests for.
\<close>

definition getBaseTexture :: "host \<Rightarrow> stage \<Rightarrow> jserror + (texRef \<times> stage)" where
  "getBaseTexture h s =
     (if createTextureOk h
      then Inr (nextTexture s,
                s\<lparr>textures := (textures s)(nextTexture s := blankTexture),
                  nextTexture := nextTexture s + 1\<rparr>)
      else Inl TypeError)"

definition getSafeTexture :: "host \<Rightarrow> stage \<Rightarrow> jserror + (texRef \<times> stage)" where
  "getSafeTexture h s = getBaseTexture h s"

text \<open>
  \<^verbatim>\<open>array[i] = v\<close> on a JavaScript array: in range it overwrites, beyond the end it
  extends the array with holes.
\<close>

definition arraySet :: "'a option list \<Rightarrow> nat \<Rightarrow> 'a option \<Rightarrow> 'a option list" where
  "arraySet xs i v =
     (if i < length xs then xs[i := v] else xs @ replicate (i - length xs) None @ [v])"

text \<open>
  \<^verbatim>\<open>_loadTextureImage\<close> (StageGL.js 1573-1613): \<open>Inr (None, s)\<close> is its
  \<^verbatim>\<open>return;\<close> for a source that is neither an image with a \<^verbatim>\<open>src\<close> nor a canvas.
\<close>

definition trackImage :: "imgRef \<Rightarrow> nat \<Rightarrow> texRef \<Rightarrow> stage \<Rightarrow> stage" where
  "trackImage i storeID t s =
     (if tex_storeID (textures s t) \<noteq> Some (- 1)
      then s\<lparr>textures := (textures s)
             (t := (textures s t)
                \<lparr>tex_storeID := Some (int storeID),
                 tex_imageData := Some (case tex_imageData (textures s t) of
                                          None \<Rightarrow> [i] | Some d \<Rightarrow> d @ [i])\<rparr>)\<rparr>
      else s)"

definition registerImage ::
  "host \<Rightarrow> imgRef \<Rightarrow> srcPath \<Rightarrow> stage \<Rightarrow> jserror + (texRef option \<times> stage)" where
  "registerImage h i path s =
     (case textureIDs s path of
        None \<Rightarrow>
          (let storeID = length (textureDictionary s);
               s1 = s\<lparr>textureIDs := (textureIDs s)(path \<mapsto> storeID),
                      images := (images s)
                        (i := (images s i)\<lparr>img_storeID := Some storeID, img_invalid := Some True\<rparr>)\<rparr>
           in case getSafeTexture h s1 of
                Inl e \<Rightarrow> Inl e
              | Inr (t, s2) \<Rightarrow>
                  (let s3 = s2\<lparr>textureDictionary := arraySet (textureDictionary s2) storeID (Some t)\<rparr>
                   in case insertTextureInBatch t (trackImage i storeID t s3) of
                        Inl e \<Rightarrow> Inl e
                      | Inr s4 \<Rightarrow> Inr (Some t, s4)))
      | Some storeID \<Rightarrow>
          (let s1 = s\<lparr>images := (images s)(i := (images s i)\<lparr>img_storeID := Some storeID\<rparr>)\<rparr>
           in case dictLookup s1 (Some storeID) of
                None \<Rightarrow> Inl TypeError
              | Some t \<Rightarrow>
                  (case insertTextureInBatch t (trackImage i storeID t s1) of
                     Inl e \<Rightarrow> Inl e
                   | Inr s4 \<Rightarrow> Inr (Some t, s4))))"

definition loadTextureImage :: "host \<Rightarrow> imgRef \<Rightarrow> stage \<Rightarrow> jserror + (texRef option \<times> stage)" where
  "loadTextureImage h i s =
     (case img_kind (images s i) of
        ImageElement src \<Rightarrow>
          if src \<noteq> [] then registerImage h i (SrcUrl src) s else Inr (None, s)
      | CanvasElement \<Rightarrow>
          registerImage h i (CanvasKey (lastTrackedCanvas s + 1))
            (s\<lparr>images := (images s)(i := (images s i)\<lparr>img_isCanvas := True\<rparr>),
               lastTrackedCanvas := lastTrackedCanvas s + 1\<rparr>)
      | InvalidSource \<Rightarrow> Inr (None, s))"

subsection \<open>Destroying and purging textures\<close>

text \<open>\<^verbatim>\<open>_killTextureObject\<close> (StageGL.js 1733-1771), for a texture that is not null.\<close>

definition unlinkTexture :: "texRef \<Rightarrow> stage \<Rightarrow> stage" where
  "unlinkTexture t s =
     (case tex_storeID (textures s t) of
        None \<Rightarrow> s
      | Some sid \<Rightarrow>
          if sid < 0 then s
          else
            s\<lparr>textureDictionary := arraySet (textureDictionary s) (nat sid) None,
              textureIDs := (\<lambda>k. if textureIDs s k = Some (nat sid) then None else textureIDs s k),
              images := (\<lambda>i. if i \<in> set (case tex_imageData (textures s t) of
                                            None \<Rightarrow> [] | Some d \<Rightarrow> d)
                              then (images s i)\<lparr>img_storeID := None\<rparr> else images s i),
              textures := (textures s)
                (t := (textures s t)\<lparr>tex_imageData := None, tex_storeID := None\<rparr>)\<rparr>)"

definition dropFromSlot :: "texRef \<Rightarrow> stage \<Rightarrow> stage" where
  "dropFromSlot t s =
     (case tex_activeIndex (textures s t) of
        None \<Rightarrow> s
      | Some k \<Rightarrow>
          if k < length (batchTextures s) \<and> batchTextures s ! k = t \<and> k < length (baseTextures s)
          then s\<lparr>batchTextures := (batchTextures s)[k := baseTextures s ! k]\<rparr>
          else s)"

definition killTextureObject :: "texRef \<Rightarrow> stage \<Rightarrow> stage" where
  "killTextureObject t s =
     (let s1 = dropFromSlot t (unlinkTexture t s)
      in s1\<lparr>textures := (textures s1)
              (t := (textures s1 t)\<lparr>tex_frameBuffer := False, tex_deleted := True\<rparr>)\<rparr>)"

text \<open>
  The test of \<^verbatim>\<open>purgeTextures\<close>: \<^verbatim>\<open>item._drawID + count <= this._drawID\<close>; with
  \<^verbatim>\<open>_drawID\<close> undefined the sum is \<^verbatim>\<open>NaN\<close> and the comparison false.
\<close>

definition purgeable :: "int \<Rightarrow> stage \<Rightarrow> imgRef \<Rightarrow> bool" where
  "purgeable n s i =
     (case img_drawID (images s i) of None \<Rightarrow> False | Some d \<Rightarrow> d + n \<le> drawID s)"

text \<open>
  One round of the outer loop of \<^verbatim>\<open>purgeTextures\<close> (StageGL.js 946-961), for the
  dictionary index \<open>i\<close>: the inner loop splices the aged sources out of
  \<^verbatim>\<open>_imageData\<close> and clears their \<^verbatim>\<open>_storeID\<close>; a texture left without sources is
  killed.
\<close>

definition purgeEntry :: "int \<Rightarrow> nat \<Rightarrow> stage \<Rightarrow> stage" where
  "purgeEntry n i s =
     (case dictLookup s (Some i) of
        None \<Rightarrow> s
      | Some t \<Rightarrow>
          (case tex_imageData (textures s t) of
             None \<Rightarrow> s
           | Some d \<Rightarrow>
               (let kept = filter (\<lambda>j. \<not> purgeable n s j) d;
                    s1 = s\<lparr>images := (\<lambda>j. if j \<in> set d \<and> purgeable n s j
                                          then (images s j)\<lparr>img_storeID := None\<rparr> else images s j),
                           textures := (textures s)
                             (t := (textures s t)\<lparr>tex_imageData := Some kept\<rparr>)\<rparr>
                in if kept = [] then killTextureObject t s1 else s1)))"

text \<open>\<^verbatim>\<open>purgeTextures(count)\<close> (StageGL.js 943-962); the bound \<^verbatim>\<open>l\<close> is read once.\<close>

definition purgeTextures :: "int \<Rightarrow> stage \<Rightarrow> stage" where
  "purgeTextures n s = fold (purgeEntry n) [0..<length (textureDictionary s)] s"

subsection \<open>Render textures\<close>

text \<open>
  Resolving an identifier: the innermost scope that binds it, a \<^verbatim>\<open>ReferenceError\<close> when
  none does (StageGL.js is an ES module, hence strict).
\<close>

fun resolveIdentifier :: "(string \<rightharpoonup> jsvalue) list \<Rightarrow> string \<Rightarrow> jserror + jsvalue" where
  "resolveIdentifier [] x = Inl (ReferenceError x)"
| "resolveIdentifier (sc # scs) x =
     (case sc x of Some v \<Rightarrow> Inr v | None \<Rightarrow> resolveIdentifier scs x)"

text \<open>
  The bindings of the module StageGL.js (its imports and its class; AJStageGL.js has the
  same imports) and the bindings in force in \<^verbatim>\<open>getRenderBufferTexture(width, height)\<close>
  when its second statement runs: the two parameters and \<^verbatim>\<open>gl\<close>.
\<close>

definition moduleScope :: "string \<rightharpoonup> jsvalue" where
  "moduleScope =
     [''Stage'' \<mapsto> JSObject, ''Container'' \<mapsto> JSObject, ''shaders'' \<mapsto> JSObject,
      ''Matrix2D'' \<mapsto> JSObject, ''Filter'' \<mapsto> JSObject, ''BitmapCache'' \<mapsto> JSObject,
      ''StageGL'' \<mapsto> JSObject, ''AJStageGL'' \<mapsto> JSObject]"

definition getRenderBufferTexture_scope :: "rat \<Rightarrow> rat \<Rightarrow> string \<rightharpoonup> jsvalue" where
  "getRenderBufferTexture_scope width height =
     [''width'' \<mapsto> JSNumber (Number width), ''height'' \<mapsto> JSNumber (Number height),
      ''gl'' \<mapsto> JSObject]"

text \<open>
  \<^verbatim>\<open>getRenderBufferTexture(width, height)\<close> (StageGL.js 1079-1104, AJStageGL.js
  528-553). Its first use of the sizes is \<^verbatim>\<open>this.getBaseTexture(w, h)\<close>: the arguments
  \<^verbatim>\<open>w\<close> and \<^verbatim>\<open>h\<close> are evaluated left to right before the call. \<open>Inr (None, s)\<close> is
  its \<^verbatim>\<open>return null\<close>.
\<close>

definition getRenderBufferTexture ::
  "host \<Rightarrow> rat \<Rightarrow> rat \<Rightarrow> stage \<Rightarrow> jserror + (texRef option \<times> stage)" where
  "getRenderBufferTexture h width height s =
     (let scopes = [getRenderBufferTexture_scope width height, moduleScope, globalScope h] in
      case resolveIdentifier scopes ''w'' of
        Inl e \<Rightarrow> Inl e
      | Inr w \<Rightarrow>
          (case resolveIdentifier scopes ''h'' of
             Inl e \<Rightarrow> Inl e
           | Inr hh \<Rightarrow>
               (case getBaseTexture h s of
                  Inl e \<Rightarrow> Inl e
                | Inr (t, s1) \<Rightarrow>
                    if \<not> createFramebufferOk h then Inr (None, s1)
                    else
                      Inr (Some t,
                           s1\<lparr>textures := (textures s1)
                                 (t := (textures s1 t)
                                    \<lparr>tex_frameBuffer := True,
                                     tex_storeID := Some (int (length (textureDictionary s1)))\<rparr>),
                               textureDictionary := textureDictionary s1 @ [Some t]\<rparr>))))"

subsection \<open>Initialisation\<close>

text \<open>
  The \<^verbatim>\<open>while (!success)\<close> loop of \<^verbatim>\<open>_initMaterials\<close> (StageGL.js 1535-1548) on
  \<^verbatim>\<open>_batchTextureCount\<close>: the count it ends with, or the string it throws.
\<close>

function batchShaderLoop :: "host \<Rightarrow> nat \<Rightarrow> jserror + nat" where
  "batchShaderLoop h n =
     (if batchShaderLinks h n then Inr n
      else if n \<le> 1 then Inl (Thrown ''Cannot compile shader'')
      else batchShaderLoop h (n div 2))"
  by pat_completeness auto
termination
  by (relation "measure snd") auto

declare batchShaderLoop.simps [simp del]

text \<open>\<^verbatim>\<open>_initMaterials\<close> (StageGL.js 1519-1563).\<close>

definition initMaterials :: "host \<Rightarrow> stage \<Rightarrow> jserror + stage" where
  "initMaterials h s =
     (let s1 = s\<lparr>lastTextureInsert := - 1, textureDictionary := [], textureIDs := Map.empty,
                 baseTextures := [], batchTextures := [],
                 gpuTextureCount := MAX_TEXTURE_IMAGE_UNITS h,
                 gpuTextureMax := MAX_COMBINED_TEXTURE_IMAGE_UNITS h,
                 batchTextureCount := MAX_TEXTURE_IMAGE_UNITS h\<rparr>
      in case batchShaderLoop h (batchTextureCount s1) of
           Inl e \<Rightarrow> Inl e
         | Inr n \<Rightarrow>
             (case getBaseTexture h (s1\<lparr>batchTextureCount := n, activeShader := MainShader\<rparr>) of
                Inl e \<Rightarrow> Inl e
              | Inr (t, s2) \<Rightarrow>
                  Inr (s2\<lparr>textures := (textures s2)(t := (textures s2 t)\<lparr>tex_storeID := Some (- 1)\<rparr>),
                         baseTextures := replicate n t,
                         batchTextures := replicate n t\<rparr>)))"

text \<open>
  The part of \<^verbatim>\<open>_initializeWebGL\<close> (StageGL.js 675-682) after the context was
  fetched; \<^verbatim>\<open>_createBuffers\<close> (1426-1510) sizes and fills the arrays: zeros and
  alpha 1 in the default configuration; in the micro configuration, which holds five
  groups, its loop writes \<open>1.0\<close> to the fifth number of a group, the texture index, and
  leaves the sixth, the alpha, at zero.
\<close>

definition blankVertex :: vertex where
  "blankVertex =
     \<lparr>v_x = Number 0, v_y = Number 0, v_u = Number 0, v_v = Number 0, v_texture = Some 0,
      v_alpha = Number 1\<rparr>"

definition blankMicroVertex :: vertex where
  "blankMicroVertex =
     \<lparr>v_x = Number 0, v_y = Number 0, v_u = Number 0, v_v = Number 0, v_texture = Some 1,
      v_alpha = Number 0\<rparr>"

definition createBuffers :: "stage \<Rightarrow> stage" where
  "createBuffers s =
     s\<lparr>defaultArray := replicate (maxBatchVertexCount s) blankVertex,
       microArray := replicate 5 blankMicroVertex,
       activeConfig := DefaultConfig\<rparr>"

definition initializeWebGL :: "host \<Rightarrow> nat \<Rightarrow> nat \<Rightarrow> stage \<Rightarrow> jserror + stage" where
  "initializeWebGL h canvasWidth canvasHeight s =
     (case initMaterials h (createBuffers s) of
        Inl e \<Rightarrow> Inl e
      | Inr s1 \<Rightarrow>
          (let s2 = (updateRenderMode h (Some ''source-over'') s1)
                      \<lparr>viewportWidth := of_nat canvasWidth, viewportHeight := of_nat canvasHeight\<rparr>
           in if \<not> directDraw s2
              then (case getRenderBufferTexture h (viewportWidth s2) (viewportHeight s2) s2 of
                      Inl e \<Rightarrow> Inl e
                    | Inr (r, s3) \<Rightarrow> Inr (s3\<lparr>bufferTextureOutput := map_option RenderTexture r\<rparr>))
              else Inr s2))"

text \<open>
  The buffer allocation of \<^verbatim>\<open>BitmapCache.update\<close> for a cache drawn by a StageGL
  (BitmapCache.js 432-450): the cache's output buffer, and its concat buffer when the
  target has a filter. The pair is (\<^verbatim>\<open>_bufferTextureOutput\<close>,
  \<^verbatim>\<open>_bufferTextureConcat\<close>); \<^verbatim>\<open>resizeTexture\<close> on an existing buffer changes nothing
  the model keeps.
\<close>

definition cacheUpdateBuffers ::
  "host \<Rightarrow> texRef option \<times> texRef option \<Rightarrow> nat \<Rightarrow> rat \<Rightarrow> rat \<Rightarrow> stage
     \<Rightarrow> jserror + ((texRef option \<times> texRef option) \<times> stage)" where
  "cacheUpdateBuffers h bufs filterCount drawWidth drawHeight s =
     (case (case fst bufs of
              None \<Rightarrow> getRenderBufferTexture h drawWidth drawHeight s
            | Some t \<Rightarrow> Inr (Some t, s)) of
        Inl e \<Rightarrow> Inl e
      | Inr (out, s1) \<Rightarrow>
          if filterCount \<ge> 1 then
            (case (case snd bufs of
                     None \<Rightarrow> getRenderBufferTexture h drawWidth drawHeight s1
                   | Some t \<Rightarrow> Inr (Some t, s1)) of
               Inl e \<Rightarrow> Inl e
             | Inr (cc, s2) \<Rightarrow> Inr ((out, cc), s2))
          else Inr ((out, snd bufs), s1))"

subsection \<open>Immediate rendering\<close>

text \<open>
  \<^verbatim>\<open>_drawCover\<close> (StageGL.js 1882-1906) as \<^verbatim>\<open>_immediateBatchRender\<close> calls it, with
  a texture as third argument: the program of the current render mode, then
  \<^verbatim>\<open>_renderCover\<close>.
\<close>

definition drawCover :: "stage \<Rightarrow> jserror + stage" where
  "drawCover s =
     (case builtShaders s (renderMode s) of
        None \<Rightarrow> Inl TypeError
      | Some sd \<Rightarrow> Inr (renderCover (s\<lparr>activeShader := sd_shader sd\<rparr>)))"

text \<open>
  One of the two buffers \<^verbatim>\<open>_immediateBatchRender\<close> makes sure of: created when
  \<^verbatim>\<open>null\<close>, else resized; \<^verbatim>\<open>resizeTexture\<close> binds its argument as a texture, which
  the stage itself (a buffer after a swap with the output \<^verbatim>\<open>this\<close>) is not.
\<close>

definition acquireBuffer :: "host \<Rightarrow> target option \<Rightarrow> stage \<Rightarrow> jserror + (target option \<times> stage)" where
  "acquireBuffer h cur s =
     (case cur of
        None \<Rightarrow>
          (case getRenderBufferTexture h (viewportWidth s) (viewportHeight s) s of
             Inl e \<Rightarrow> Inl e
           | Inr (r, s1) \<Rightarrow> Inr (map_option RenderTexture r, s1))
      | Some StageCanvas \<Rightarrow> Inl TypeError
      | Some (RenderTexture t) \<Rightarrow> Inr (cur, s))"

text \<open>\<^verbatim>\<open>_immediateBatchRender\<close> (StageGL.js 2214-2245).\<close>

definition immediateBatchRender :: "host \<Rightarrow> stage \<Rightarrow> jserror + stage" where
  "immediateBatchRender h s =
     (case acquireBuffer h (batchTextureConcat s) s of
        Inl e \<Rightarrow> Inl e
      | Inr (cc, s1) \<Rightarrow>
          (case acquireBuffer h (batchTextureTemp s1) (s1\<lparr>batchTextureConcat := cc\<rparr>) of
             Inl e \<Rightarrow> Inl e
           | Inr (tmp, s2) \<Rightarrow>
               if tmp = None then Inl TypeError
               else
                 (let s3 = s2\<lparr>batchTextureTemp := tmp\<rparr>;
                      s4 = s3\<lparr>batchTextureOutput := batchTextureConcat s3,
                             batchTextureConcat := batchTextureOutput s3\<rparr>;
                      s5 = renderBatch (s4\<lparr>activeShader := MainShader, batchReason := ''immediatePrep''\<rparr>)
                  in if batchTextureOutput s5 = None then Inl TypeError
                     else drawCover (s5\<lparr>batchReason := ''immediateResults''\<rparr>))))"

subsection \<open>The display list\<close>

text \<open>
  The cache of a display object whose \<^verbatim>\<open>cacheCanvas\<close> is set: the canvas (an image
  source) and the numbers of its \<^verbatim>\<open>bitmapCache\<close> the card geometry reads.
\<close>

record bitmapCache =
  bc_canvas :: imgRef
  bc_x :: jsnumber
  bc_y :: jsnumber
  bc_scale :: jsnumber
  bc_filterOffX :: jsnumber
  bc_filterOffY :: jsnumber
  bc_drawWidth :: jsnumber
  bc_drawHeight :: jsnumber

text \<open>A sprite sheet frame, as \<^verbatim>\<open>spriteSheet.getFrame\<close> returns it.\<close>

record frame =
  fr_image :: "imgRef option"
  fr_rect :: rect
  fr_regX :: jsnumber
  fr_regY :: jsnumber
  fr_uvRect :: "uvRect option"

text \<open>
  What every display object has. \<open>cache = None\<close> is a falsy \<^verbatim>\<open>cacheCanvas\<close>. Display
  objects of the model carry no filters, so the branch of \<^verbatim>\<open>_appendToBatch\<close> that
  builds a cache for a filtered object on the fly (StageGL.js 1980-2001, taken only with
  \<^verbatim>\<open>directDraw\<close> off) is never entered.
\<close>

record props =
  visible :: bool
  alpha :: jsnumber
  compositeOperation :: "string option"
  localMatrix :: matrix2D
  cache :: "bitmapCache option"

text \<open>
  The display objects \<^verbatim>\<open>_appendToBatch\<close> tells apart: one with \<^verbatim>\<open>children\<close>, a
  Bitmap (\<^verbatim>\<open>_webGLRenderStyle\<close> 2) with its image and source rectangle, a Sprite
  (\<^verbatim>\<open>_webGLRenderStyle\<close> 1) with its current frame, and any other object.
\<close>

datatype displayObject =
    Container props "displayObject list"
  | Bitmap props "imgRef option" "rect option"
  | Sprite props "frame option"
  | OtherObject props

fun propsOf :: "displayObject \<Rightarrow> props" where
  "propsOf (Container p cs) = p"
| "propsOf (Bitmap p i r) = p"
| "propsOf (Sprite p f) = p"
| "propsOf (OtherObject p) = p"

fun hasChildren :: "displayObject \<Rightarrow> bool" where
  "hasChildren (Container p cs) = True"
| "hasChildren _ = False"

subsection \<open>Appending a card\<close>

text \<open>
  The image of a card (StageGL.js 2036-2050): \<open>None\<close> is one of the \<^verbatim>\<open>continue\<close>s
  (a sprite without frame, an object that is neither bitmap nor sprite nor cached, no
  image).
\<close>

fun cardImage :: "displayObject \<Rightarrow> bitmapCache option \<Rightarrow> imgRef option" where
  "cardImage item (Some c) = Some (bc_canvas c)"
| "cardImage (Bitmap p i r) None = i"
| "cardImage (Sprite p None) None = None"
| "cardImage (Sprite p (Some f)) None = fr_image f"
| "cardImage _ None = None"

text \<open>
  \<^verbatim>\<open>StageGL.buildUVRects\<close> (StageGL.js 540-560) for the frame the sprite shows: the
  frame's own rectangle if it has one, else the one computed from its rect, else
  \<^verbatim>\<open>{t:0, l:0, b:1, r:1}\<close> for an image without size.
\<close>

definition frameUV :: "frame \<Rightarrow> nat \<Rightarrow> nat \<Rightarrow> uvRect" where
  "frameUV f w h =
     (case fr_uvRect f of
        Some u \<Rightarrow> u
      | None \<Rightarrow>
          if w \<le> 0 \<or> h \<le> 0
          then \<lparr>uv_t = Number 0, uv_l = Number 0, uv_b = Number 1, uv_r = Number 1\<rparr>
          else sourceRectUV (fr_rect f) (Number (of_nat w)) (Number (of_nat h)))"

text \<open>
  The uv rectangle and the corner offsets (subL, subT, subR, subB) of a card
  (StageGL.js 2073-2117), given the width and height of its image (pixel counts, which
  doubles hold exactly).
\<close>

fun cardGeometry ::
  "displayObject \<Rightarrow> bitmapCache option \<Rightarrow> nat \<Rightarrow> nat
     \<Rightarrow> uvRect \<times> jsnumber \<times> jsnumber \<times> jsnumber \<times> jsnumber" where
  "cardGeometry item (Some c) w h =
     (UV_RECT,
      jsAdd (bc_x c) (jsDiv (bc_filterOffX c) (bc_scale c)),
      jsAdd (bc_y c) (jsDiv (bc_filterOffY c) (bc_scale c)),
      jsAdd (jsDiv (bc_drawWidth c) (bc_scale c))
            (jsAdd (bc_x c) (jsDiv (bc_filterOffX c) (bc_scale c))),
      jsAdd (jsDiv (bc_drawHeight c) (bc_scale c))
            (jsAdd (bc_y c) (jsDiv (bc_filterOffY c) (bc_scale c))))"
| "cardGeometry (Bitmap p i (Some src)) None w h =
     (sourceRectUV src (Number (of_nat w)) (Number (of_nat h)), Number 0, Number 0,
      jsAdd (r_width src) (Number 0), jsAdd (r_height src) (Number 0))"
| "cardGeometry (Bitmap p i None) None w h =
     (UV_RECT, Number 0, Number 0,
      jsAdd (Number (of_nat w)) (Number 0), jsAdd (Number (of_nat h)) (Number 0))"
| "cardGeometry (Sprite p (Some f)) None w h =
     (frameUV f w h, jsNeg (fr_regX f), jsNeg (fr_regY f),
      jsSub (r_width (fr_rect f)) (fr_regX f), jsSub (r_height (fr_rect f)) (fr_regY f))"
| "cardGeometry _ None w h = (UV_RECT, Number 0, Number 0, Number 0, Number 0)"

text \<open>The six vertices of the card of an item whose image is \<open>w\<close> by \<open>h\<close>.\<close>

definition cardVerticesOf ::
  "displayObject \<Rightarrow> bitmapCache option \<Rightarrow> nat \<Rightarrow> nat \<Rightarrow> matrix2D \<Rightarrow> nat option \<Rightarrow> jsnumber
     \<Rightarrow> vertex list" where
  "cardVerticesOf item useCache w h iMtx texIndex al =
     (case cardGeometry item useCache w h of
        (uv, subL, subT, subR, subB) \<Rightarrow> cardVertices iMtx subL subT subR subB uv texIndex al)"

text \<open>
  The corners of the rectangle from (x0, y0) to (x1, y1), given in image coordinates
  scaled to the unit square with v growing downwards, as the uv pairs of the six
  vertices of a card: v flipped (\<open>1 - v\<close>), each number as the single the array keeps.
\<close>

definition flippedCorners ::
  "jsnumber \<Rightarrow> jsnumber \<Rightarrow> jsnumber \<Rightarrow> jsnumber \<Rightarrow> (jsnumber \<times> jsnumber) list" where
  "flippedCorners x0 y0 x1 y1 =
     [(fround x0, fround (jsSub (Number 1) y0)), (fround x0, fround (jsSub (Number 1) y1)),
      (fround x1, fround (jsSub (Number 1) y0)), (fround x0, fround (jsSub (Number 1) y1)),
      (fround x1, fround (jsSub (Number 1) y0)), (fround x1, fround (jsSub (Number 1) y1))]"

text \<open>
  The "calculate texture" block (StageGL.js 2052-2069): \<open>Inr (None, s)\<close> is its
  \<^verbatim>\<open>continue\<close> for a \<^verbatim>\<open>_storeID\<close> that names no texture; a source
  \<^verbatim>\<open>_loadTextureImage\<close> rejects leaves \<^verbatim>\<open>texture\<close> undefined and the next statement
  reads \<^verbatim>\<open>texture._activeIndex\<close>.
\<close>

definition resolveTexture :: "host \<Rightarrow> imgRef \<Rightarrow> stage \<Rightarrow> jserror + (texRef option \<times> stage)" where
  "resolveTexture h i s0 =
     (let s = s0\<lparr>history := ResolveTexture i # history s0\<rparr> in
      case img_storeID (images s i) of
        None \<Rightarrow>
          (case loadTextureImage h i s of
             Inl e \<Rightarrow> Inl e
           | Inr (None, s1) \<Rightarrow> Inl TypeError
           | Inr (Some t, s1) \<Rightarrow> Inr (Some t, s1))
      | Some sid \<Rightarrow>
          (case dictLookup s (Some sid) of
             None \<Rightarrow> Inr (None, s)
           | Some t \<Rightarrow>
               if tex_batchID (textures s t) \<noteq> Some (batchID s)
               then (case insertTextureInBatch t s of
                       Inl e \<Rightarrow> Inl e
                     | Inr s1 \<Rightarrow> Inr (Some t, s1))
               else Inr (Some t, s)))"

text \<open>
  Writing the vertices of a card from the cursor on (a write beyond the end of a typed
  array is dropped), then \<^verbatim>\<open>_batchVertexCount += INDICIES_PER_CARD\<close>.
\<close>

fun writeAt :: "vertex list \<Rightarrow> nat \<Rightarrow> vertex list \<Rightarrow> vertex list" where
  "writeAt arr off [] = arr"
| "writeAt arr off (v # vs) = writeAt (arr[off := v]) (Suc off) vs"

definition writeCard :: "vertex list \<Rightarrow> stage \<Rightarrow> stage" where
  "writeCard vs s =
     (let s1 = (case activeConfig s of
                  DefaultConfig \<Rightarrow> s\<lparr>defaultArray := writeAt (defaultArray s) (batchVertexCount s) vs\<rparr>
                | MicroConfig \<Rightarrow> s\<lparr>microArray := writeAt (microArray s) (batchVertexCount s) vs\<rparr>)
      in s1\<lparr>batchVertexCount := batchVertexCount s + INDICIES_PER_CARD,
            history := AppendCard (renderMode s) (batchVertexCount s + INDICIES_PER_CARD) vs
                         # history s\<rparr>)"

text \<open>
  The body of the loop of \<^verbatim>\<open>_appendToBatch\<close> from \<^verbatim>\<open>let containerRenderMode\<close> on
  (StageGL.js 2009-2201), for an item that is drawn as one card; \<open>useCache\<close> is the
  item's cache unless caches are ignored. The \<^verbatim>\<open>continue\<close>s leave with the state as
  it is at that point.
\<close>

definition appendCard ::
  "host \<Rightarrow> displayObject \<Rightarrow> bitmapCache option \<Rightarrow> matrix2D \<Rightarrow> jsnumber \<Rightarrow> stage
     \<Rightarrow> jserror + stage" where
  "appendCard h item useCache cMtx concatAlpha s =
     (let p = propsOf item;
          itemAlpha = alpha p;
          containerRenderMode = renderMode s;
          s1 = (if truthy (compositeOperation p)
                then updateRenderMode h (compositeOperation p) s else s);
          s2 = (if batchVertexCount s1 + INDICIES_PER_CARD > maxBatchVertexCount s1
                then renderBatch (s1\<lparr>batchReason := ''vertexOverflow''\<rparr>) else s1);
          iMtx = appendMatrix cMtx (localMatrix p)
      in case cardImage item useCache of
           None \<Rightarrow> Inr s2
         | Some i \<Rightarrow>
             (case resolveTexture h i s2 of
                Inl e \<Rightarrow> Inl e
              | Inr (None, s3) \<Rightarrow> Inr s3
              | Inr (Some t, s3) \<Rightarrow>
                  (let texIndex = tex_activeIndex (textures s3 t);
                       s4 = s3\<lparr>images := (images s3)
                                 (i := (images s3 i)\<lparr>img_drawID := Some (drawID s3)\<rparr>)\<rparr>;
                       vs = cardVerticesOf item useCache (img_width (images s4 i))
                              (img_height (images s4 i)) iMtx texIndex
                              (jsMul itemAlpha concatAlpha);
                       s5 = writeCard vs s4
                   in case (if immediateRender s5
                            then immediateBatchRender h (s5\<lparr>activeConfig := DefaultConfig\<rparr>)
                            else Inr s5) of
                        Inl e \<Rightarrow> Inl e
                      | Inr s6 \<Rightarrow>
                          Inr (if renderMode s6 \<noteq> containerRenderMode
                               then updateRenderMode h (Some containerRenderMode) s6
                               else s6))))"

subsection \<open>The traversal\<close>

text \<open>
  \<^verbatim>\<open>_appendToBatch(container, concatMtx, concatAlpha, ignoreCache)\<close> (StageGL.js
  1941-2207): \<open>appendChildren\<close> is its \<^verbatim>\<open>for\<close> loop, \<open>appendItem\<close> one round of it.
  The recursive call passes no fourth argument, so caches are not ignored below the
  first level. The literal \<^verbatim>\<open>0.0035\<close> denotes the double nearest to 35/10000.
\<close>

definition alphaThreshold :: jsnumber where
  "alphaThreshold = toDouble (7 / 2000)"

fun appendToBatch ::
    "host \<Rightarrow> displayObject \<Rightarrow> matrix2D \<Rightarrow> jsnumber \<Rightarrow> bool \<Rightarrow> stage \<Rightarrow> jserror + stage"
  and appendChildren ::
    "host \<Rightarrow> displayObject list \<Rightarrow> matrix2D \<Rightarrow> jsnumber \<Rightarrow> bool \<Rightarrow> stage \<Rightarrow> jserror + stage"
  and appendItem ::
    "host \<Rightarrow> displayObject \<Rightarrow> matrix2D \<Rightarrow> jsnumber \<Rightarrow> bool \<Rightarrow> stage \<Rightarrow> jserror + stage"
where
  "appendToBatch h (Container p cs) concatMtx concatAlpha ignoreCache s =
     (let cMtx = appendMatrix concatMtx (localMatrix p);
          previousRenderMode = renderMode s;
          s1 = (if truthy (compositeOperation p)
                then updateRenderMode h (compositeOperation p) s else s)
      in case appendChildren h cs cMtx concatAlpha ignoreCache s1 of
           Inl e \<Rightarrow> Inl e
         | Inr s2 \<Rightarrow>
             Inr (if renderMode s2 \<noteq> previousRenderMode
                  then updateRenderMode h (Some previousRenderMode) s2 else s2))"
| "appendToBatch h (Bitmap p i r) concatMtx concatAlpha ignoreCache s = Inl TypeError"
| "appendToBatch h (Sprite p f) concatMtx concatAlpha ignoreCache s = Inl TypeError"
| "appendToBatch h (OtherObject p) concatMtx concatAlpha ignoreCache s = Inl TypeError"
| "appendChildren h [] cMtx concatAlpha ignoreCache s = Inr s"
| "appendChildren h (item # rest) cMtx concatAlpha ignoreCache s =
     (case appendItem h item cMtx concatAlpha ignoreCache s of
        Inl e \<Rightarrow> Inl e
      | Inr s1 \<Rightarrow> appendChildren h rest cMtx concatAlpha ignoreCache s1)"
| "appendItem h item cMtx concatAlpha ignoreCache s =
     (let useCache = (if ignoreCache then None else cache (propsOf item)) in
      if \<not> (visible (propsOf item) \<and> jsGreater concatAlpha alphaThreshold) then Inr s
      else if useCache = None \<and> hasChildren item
      then appendToBatch h item cMtx (jsMul (alpha (propsOf item)) concatAlpha) False s
      else appendCard h item useCache cMtx concatAlpha s)"

text \<open>\<^verbatim>\<open>_drawContent(content, ignoreCache)\<close> (StageGL.js 1857-1869).\<close>

definition drawContent :: "host \<Rightarrow> displayObject \<Rightarrow> bool \<Rightarrow> stage \<Rightarrow> jserror + stage" where
  "drawContent h content ignoreCache s =
     (if batchTextureOutput s = None then Inl TypeError
      else
        (case appendToBatch h content identityMatrix (stageAlpha s) ignoreCache
                (s\<lparr>activeShader := MainShader\<rparr>) of
           Inl e \<Rightarrow> Inl e
         | Inr s1 \<Rightarrow> Inr (renderBatch (s1\<lparr>batchReason := ''contentEnd''\<rparr>))))"

subsection \<open>The constructor\<close>

text \<open>
  The fields as the constructor leaves them before it calls \<^verbatim>\<open>_initializeWebGL\<close>
  (StageGL.js 135-511), over the images of the page, and the whole constructor.
\<close>

definition newStage :: "bool \<Rightarrow> int \<Rightarrow> (imgRef \<Rightarrow> image) \<Rightarrow> stage" where
  "newStage direct batchSize imgs =
     \<lparr>directDraw = direct, stageAlpha = Number 1,
      maxBatchVertexCount = constructor_maxBatchVertexCount batchSize,
      batchVertexCount = 0, batchID = 0, drawID = 0, renderPerDraw = 0, batchReason = [],
      renderMode = [], immediateRender = False, activeShader = NoShader,
      activeConfig = DefaultConfig, defaultArray = [], microArray = [],
      builtShaders = Map.empty, gpuTextureCount = 8, gpuTextureMax = 8,
      batchTextureCount = 0, batchTextures = [], baseTextures = [],
      lastTextureInsert = - 1, slotBlacklist = (\<lambda>k. False), textureDictionary = [],
      textureIDs = Map.empty, lastTrackedCanvas = - 1, textures = (\<lambda>t. blankTexture),
      images = imgs, nextTexture = 0, batchTextureOutput = Some StageCanvas,
      batchTextureConcat = None, batchTextureTemp = None, bufferTextureOutput = None,
      viewportWidth = 0, viewportHeight = 0, history = []\<rparr>"

definition constructStage ::
  "host \<Rightarrow> bool \<Rightarrow> int \<Rightarrow> (imgRef \<Rightarrow> image) \<Rightarrow> nat \<Rightarrow> nat \<Rightarrow> jserror + stage" where
  "constructStage h direct batchSize imgs canvasWidth canvasHeight =
     initializeWebGL h canvasWidth canvasHeight (newStage direct batchSize imgs)"

subsection \<open>The halving sequence\<close>

text \<open>
  The sampler counts the degradation protocol asks for, in the words of the
  specification: the requested count, then half of it (integer division), and so on down
  to 1.
\<close>

function halvings :: "nat \<Rightarrow> nat list" where
  "halvings n = (if n \<le> 1 then [n] else n # halvings (n div 2))"
  by pat_completeness auto
termination
  by (relation "measure id") auto

declare halvings.simps [simp del]

subsection \<open>A sample host and page\<close>

text \<open>
  A device with 16 texture units whose compiler accepts at most \<open>limit\<close> samplers, and
  a blend table with \<^verbatim>\<open>source-over\<close>, a mode set by blend factors alone
  (\<^verbatim>\<open>lighter\<close>) and a mode with a cover shader (\<^verbatim>\<open>multiply\<close>), as the
  specification describes the table; no page script defines globals.
\<close>

definition sampleHost :: "nat \<Rightarrow> host" where
  "sampleHost limit =
     \<lparr>MAX_TEXTURE_IMAGE_UNITS = 16, MAX_COMBINED_TEXTURE_IMAGE_UNITS = 32,
      batchShaderLinks = (\<lambda>n. n \<le> limit), coverShaderLinks = (\<lambda>m. True),
      createTextureOk = True, createFramebufferOk = True,
      blendSources = [''source-over'' \<mapsto> \<lparr>bs_shader = None\<rparr>,
                      ''lighter'' \<mapsto> \<lparr>bs_shader = None\<rparr>,
                      ''multiply'' \<mapsto> \<lparr>bs_shader = Some ''multiply-fragment''\<rparr>],
      globalScope = Map.empty\<rparr>"

text \<open>The properties of a visible, opaque, untransformed object without cache or blend mode.\<close>

definition plainProps :: props where
  "plainProps =
     \<lparr>visible = True, alpha = Number 1, compositeOperation = None, localMatrix = identityMatrix,
      cache = None\<rparr>"

text \<open>A page whose images are all loaded 128 by 64 image elements named by their number.\<close>

definition sampleImages :: "imgRef \<Rightarrow> image" where
  "sampleImages i =
     \<lparr>img_kind = ImageElement (replicate (Suc i) CHR ''a''), img_width = 128, img_height = 64,
      img_ready = True, img_storeID = None, img_drawID = None, img_invalid = None,
      img_isCanvas = False\<rparr>"

subsection \<open>The slot search in the words of the specification\<close>

text \<open>
  The slots in round-robin order from \<open>start\<close>, and the first of them, starting just
  after the last inserted slot, whose occupant was last used in another batch and which
  is not blacklisted.
\<close>

definition roundRobin :: "nat \<Rightarrow> nat \<Rightarrow> nat list" where
  "roundRobin start n = map (\<lambda>k. (start + k) mod n) [0..<n]"

definition firstEvictable :: "stage \<Rightarrow> nat option" where
  "firstEvictable s =
     find (slotEvictable s)
       (roundRobin (nat (lastTextureInsert s + 1) mod batchTextureCount s) (batchTextureCount s))"

subsection \<open>Sample states\<close>

text \<open>
  The stage the constructor builds on the sample host when the compiler accepts two
  samplers, with the default \<^verbatim>\<open>directDraw\<close> and the smallest batch size; and the same
  stage with one card pending and both slots taken by textures of the current batch.
\<close>

definition sampleStage :: stage where
  "sampleStage =
     \<lparr>directDraw = True, stageAlpha = Number 1, maxBatchVertexCount = 1020,
      batchVertexCount = 0, batchID = 0, drawID = 0, renderPerDraw = 0,
      batchReason = ''shaderSwap'', renderMode = ''source-over'', immediateRender = False,
      activeShader = MainShader, activeConfig = DefaultConfig,
      defaultArray = replicate 1020 blankVertex, microArray = replicate 5 blankMicroVertex,
      builtShaders = [''source-over'' \<mapsto>
                        \<lparr>sd_immediate = False, sd_shader = CoverShader ''source-over''\<rparr>],
      gpuTextureCount = 16, gpuTextureMax = 32, batchTextureCount = 2,
      batchTextures = [0, 0], baseTextures = [0, 0], lastTextureInsert = - 1,
      slotBlacklist = (\<lambda>k. False), textureDictionary = [], textureIDs = Map.empty,
      lastTrackedCanvas = - 1,
      textures = (\<lambda>t. blankTexture)(0 := blankTexture\<lparr>tex_storeID := Some (- 1)\<rparr>),
      images = sampleImages, nextTexture = 1, batchTextureOutput = Some StageCanvas,
      batchTextureConcat = None, batchTextureTemp = None, bufferTextureOutput = None,
      viewportWidth = 800, viewportHeight = 600, history = []\<rparr>"

definition fullStage :: stage where
  "fullStage =
     sampleStage
       \<lparr>batchVertexCount := 6, batchTextures := [5, 6], lastTextureInsert := 1,
        textures := (textures sampleStage)
          (5 := blankTexture\<lparr>tex_activeIndex := Some 0, tex_batchID := Some 0,
                             tex_drawID := Some 0\<rparr>,
           6 := blankTexture\<lparr>tex_activeIndex := Some 1, tex_batchID := Some 0,
                             tex_drawID := Some 0\<rparr>)\<rparr>"

subsection \<open>The texture registry in the words of the specification\<close>

text \<open>
  The registered textures are the entries of the dictionary. The registry is in order
  when every registered texture that tracks sources sits at the index it records and
  tracks at least one source, as \<^verbatim>\<open>_loadTextureImage\<close> registers textures.
\<close>

definition registeredTextures :: "stage \<Rightarrow> texRef set" where
  "registeredTextures s = {t. Some t \<in> set (textureDictionary s)}"

definition registryOk :: "stage \<Rightarrow> bool" where
  "registryOk s =
     (\<forall>i t d. i < length (textureDictionary s) \<and> textureDictionary s ! i = Some t
               \<and> tex_imageData (textures s t) = Some d
        \<longrightarrow> tex_storeID (textures s t) = Some (int i) \<and> d \<noteq> [])"

text \<open>
  The state after the inner loop of \<^verbatim>\<open>purgeTextures\<close> for the texture \<open>t\<close> with the
  sources \<open>d\<close>, before the test for an empty list.
\<close>

definition purgeMark :: "int \<Rightarrow> stage \<Rightarrow> texRef \<Rightarrow> imgRef list \<Rightarrow> stage" where
  "purgeMark n s t d =
     s\<lparr>images := (\<lambda>j. if j \<in> set d \<and> purgeable n s j
                        then (images s j)\<lparr>img_storeID := None\<rparr> else images s j),
       textures := (textures s)
         (t := (textures s t)\<lparr>tex_imageData := Some (filter (\<lambda>j. \<not> purgeable n s j) d)\<rparr>)\<rparr>"

text \<open>
  The sample stage at draw 100 with two registered textures: texture 1 tracks image 10
  (last drawn at draw 5) and image 11 (at draw 95), texture 2 tracks image 12 (at draw 3).
\<close>

definition purgeSample :: stage where
  "purgeSample =
     sampleStage
       \<lparr>drawID := 100, textureDictionary := [Some 1, Some 2], nextTexture := 3,
        textures := (textures sampleStage)
          (1 := blankTexture\<lparr>tex_storeID := Some 0, tex_imageData := Some [10, 11]\<rparr>,
           2 := blankTexture\<lparr>tex_storeID := Some 1, tex_imageData := Some [12]\<rparr>),
        images := sampleImages
          (10 := (sampleImages 10)\<lparr>img_storeID := Some 0, img_drawID := Some 5\<rparr>,
           11 := (sampleImages 11)\<lparr>img_storeID := Some 0, img_drawID := Some 95\<rparr>,
           12 := (sampleImages 12)\<lparr>img_storeID := Some 1, img_drawID := Some 3\<rparr>)\<rparr>"

text \<open>
  The state after a successful switch of \<^verbatim>\<open>_updateRenderMode\<close> to the mode \<open>n\<close> with the
  shader data \<open>sd\<close>, \<open>bs\<close> being the shader table at that point; and a shader table
  that keeps every entry another one has.
\<close>

definition switched :: "string \<Rightarrow> shaderData \<Rightarrow> (string \<rightharpoonup> shaderData) \<Rightarrow> stage \<Rightarrow> stage" where
  "switched n sd bs s =
     (renderBatch (s\<lparr>builtShaders := bs,
                     activeConfig := (if sd_immediate sd then MicroConfig else activeConfig s),
                     batchReason := ''shaderSwap''\<rparr>))
       \<lparr>renderMode := n, immediateRender := sd_immediate sd\<rparr>"

definition keepsShaders :: "stage \<Rightarrow> (string \<rightharpoonup> shaderData) \<Rightarrow> bool" where
  "keepsShaders s bs = (\<forall>k. builtShaders s k \<noteq> None \<longrightarrow> bs k = builtShaders s k)"

subsection \<open>Counting the events of a draw\<close>

text \<open>
  The number of cards whose vertices were written and the number of runs of the
  "calculate texture" block on record.
\<close>

fun isAppendCard :: "event \<Rightarrow> bool" where
  "isAppendCard (AppendCard m n vs) = True"
| "isAppendCard _ = False"

fun isResolveTexture :: "event \<Rightarrow> bool" where
  "isResolveTexture (ResolveTexture i) = True"
| "isResolveTexture _ = False"

definition cardsAppended :: "event list \<Rightarrow> nat" where
  "cardsAppended es = length (filter isAppendCard es)"

definition texturesResolved :: "event list \<Rightarrow> nat" where
  "texturesResolved es = length (filter isResolveTexture es)"

text \<open>A visible bitmap of image 0 whose own alpha is 0.\<close>

definition faintBitmap :: displayObject where
  "faintBitmap = Bitmap (plainProps\<lparr>alpha := Number 0\<rparr>) (Some 0) None"

subsection \<open>Views of the state used by the proofs about the traversal\<close>

text \<open>
  Two states agree on the batch: on everything \<^verbatim>\<open>_renderBatch\<close>,
  \<^verbatim>\<open>_updateRenderMode\<close> and the vertex writes of \<^verbatim>\<open>_appendToBatch\<close> read or
  write, apart from the textures, the images and the registry.
\<close>

definition sameBatch :: "stage \<Rightarrow> stage \<Rightarrow> bool" where
  "sameBatch a b =
     (directDraw b = directDraw a \<and> stageAlpha b = stageAlpha a
      \<and> maxBatchVertexCount b = maxBatchVertexCount a
      \<and> batchVertexCount b = batchVertexCount a \<and> history b = history a
      \<and> batchReason b = batchReason a \<and> renderMode b = renderMode a
      \<and> immediateRender b = immediateRender a \<and> activeShader b = activeShader a
      \<and> activeConfig b = activeConfig a \<and> defaultArray b = defaultArray a
      \<and> microArray b = microArray a \<and> builtShaders b = builtShaders a
      \<and> batchID b = batchID a \<and> drawID b = drawID a
      \<and> batchTextureCount b = batchTextureCount a)"

text \<open>The state after \<^verbatim>\<open>this.batchReason = r; this._renderBatch()\<close>.\<close>

definition flushed :: "string \<Rightarrow> stage \<Rightarrow> stage" where
  "flushed r s = renderBatch (s\<lparr>batchReason := r\<rparr>)"

text \<open>The state with one more event on record.\<close>

definition noted :: "event \<Rightarrow> stage \<Rightarrow> stage" where
  "noted e s = s\<lparr>history := e # history s\<rparr>"

text \<open>
  The loop body for a card in two parts: up to the overflow check (\<open>cardStart\<close>), and
  from the write of the vertices on (\<open>cardFinish\<close>), given the render mode \<open>crm\<close> at
  the start, the image and the texture.
\<close>

definition cardStart :: "host \<Rightarrow> displayObject \<Rightarrow> stage \<Rightarrow> stage" where
  "cardStart h item s =
     (let s1 = (if truthy (compositeOperation (propsOf item))
                then updateRenderMode h (compositeOperation (propsOf item)) s else s)
      in if batchVertexCount s1 + INDICIES_PER_CARD > maxBatchVertexCount s1
         then flushed ''vertexOverflow'' s1 else s1)"

definition cardFinish ::
  "host \<Rightarrow> displayObject \<Rightarrow> bitmapCache option \<Rightarrow> matrix2D \<Rightarrow> jsnumber \<Rightarrow> string \<Rightarrow> imgRef \<Rightarrow> texRef
     \<Rightarrow> stage \<Rightarrow> jserror + stage" where
  "cardFinish h item useCache cMtx concatAlpha crm i t s3 =
     (let s4 = s3\<lparr>images := (images s3)(i := (images s3 i)\<lparr>img_drawID := Some (drawID s3)\<rparr>)\<rparr>;
          vs = cardVerticesOf item useCache (img_width (images s4 i)) (img_height (images s4 i))
                 (appendMatrix cMtx (localMatrix (propsOf item)))
                 (tex_activeIndex (textures s3 t)) (jsMul (alpha (propsOf item)) concatAlpha);
          s5 = writeCard vs s4
      in case (if immediateRender s5
               then immediateBatchRender h (s5\<lparr>activeConfig := DefaultConfig\<rparr>)
               else Inr s5) of
           Inl e \<Rightarrow> Inl e
         | Inr s6 \<Rightarrow> Inr (if renderMode s6 \<noteq> crm then updateRenderMode h (Some crm) s6 else s6))"

text \<open>
  The two mode switches around a node: to its own \<^verbatim>\<open>compositeOperation\<close> if it has one,
  and back to the mode \<open>prev\<close> if the mode is another one.
\<close>

definition enterMode :: "host \<Rightarrow> props \<Rightarrow> stage \<Rightarrow> stage" where
  "enterMode h p s =
     (if truthy (compositeOperation p) then updateRenderMode h (compositeOperation p) s else s)"

definition restoreMode :: "host \<Rightarrow> string \<Rightarrow> stage \<Rightarrow> stage" where
  "restoreMode h prev s = (if renderMode s \<noteq> prev then updateRenderMode h (Some prev) s else s)"

text \<open>
  A property of states that every card and every mode switch on the host \<open>h\<close> keeps.
\<close>

definition keptByCards :: "host \<Rightarrow> (stage \<Rightarrow> bool) \<Rightarrow> bool" where
  "keptByCards h P =
     ((\<forall>item uc m a s s'. P s \<longrightarrow> appendCard h item uc m a s = Inr s' \<longrightarrow> P s')
      \<and> (\<forall>m s. P s \<longrightarrow> P (updateRenderMode h m s)))"

text \<open>The newest card on record: the cursor after its write and its six vertices.\<close>

fun lastCard :: "event list \<Rightarrow> (nat \<times> vertex list) option" where
  "lastCard [] = None"
| "lastCard (AppendCard m n vs # es) = Some (n, vs)"
| "lastCard (e # es) = lastCard es"

text \<open>
  The state of a stage that draws directly: \<^verbatim>\<open>directDraw\<close> on, no immediate mode
  pending and the default attribute configuration active, as the constructor leaves it.
\<close>

definition directBatch :: "stage \<Rightarrow> bool" where
  "directBatch s = (directDraw s \<and> \<not> immediateRender s \<and> activeConfig s = DefaultConfig)"

text \<open>A bitmap of image 0 showing the rectangle (16, 32, 64, 32) of it.\<close>

definition croppedBitmap :: displayObject where
  "croppedBitmap =
     Bitmap plainProps (Some 0)
       (Some \<lparr>r_x = Number 16, r_y = Number 32, r_width = Number 64, r_height = Number 32\<rparr>)"

text \<open>
  The sample stage on a page whose image 0 is 3 by 3 pixels, and a bitmap showing the
  middle pixel of it.
\<close>

definition thirdsStage :: stage where
  "thirdsStage =
     sampleStage\<lparr>images := sampleImages(0 := (sampleImages 0)\<lparr>img_width := 3, img_height := 3\<rparr>)\<rparr>"

definition middlePixel :: displayObject where
  "middlePixel =
     Bitmap plainProps (Some 0)
       (Some \<lparr>r_x = Number 1, r_y = Number 1, r_width = Number 1, r_height = Number 1\<rparr>)"

text \<open>
  The cursors on record, newest first: \<^verbatim>\<open>_batchVertexCount\<close> after each write of a
  card. The batch is within capacity when neither the cursor nor any cursor on record
  exceeds \<^verbatim>\<open>_maxBatchVertexCount\<close>.
\<close>

fun cursors :: "event list \<Rightarrow> nat list" where
  "cursors [] = []"
| "cursors (AppendCard m n vs # es) = n # cursors es"
| "cursors (e # es) = cursors es"

definition withinCapacity :: "stage \<Rightarrow> bool" where
  "withinCapacity s =
     (batchVertexCount s \<le> maxBatchVertexCount s
      \<and> (\<forall>n \<in> set (cursors (history s)). n \<le> maxBatchVertexCount s))"

text \<open>Within the capacity \<open>M\<close>, which holds at least one card.\<close>

definition capped :: "nat \<Rightarrow> stage \<Rightarrow> bool" where
  "capped M s =
     (maxBatchVertexCount s = M \<and> INDICIES_PER_CARD \<le> M \<and> batchVertexCount s \<le> M
      \<and> (\<forall>n \<in> set (cursors (history s)). n \<le> M))"

text \<open>
  The record of \<open>s'\<close> continues the record of \<open>s\<close>, and the cursors it adds are \<open>cs\<close>
  (newest first).
\<close>

definition continues :: "nat list \<Rightarrow> stage \<Rightarrow> stage \<Rightarrow> bool" where
  "continues cs s s' = (\<exists>es. history s' = es @ history s \<and> cursors es = cs)"

text \<open>The sample stage with its vertex array full: 170 cards pending.\<close>

definition brimStage :: stage where
  "brimStage = sampleStage\<lparr>batchVertexCount := 1020\<rparr>"

section \<open>Properties\<close>

subsection \<open>C10: the autoPurge setter\<close>

lemma mathMax_ten_cases:
  "mathMax v (Number 10) = NaN \<or> jsGreaterEq (mathMax v (Number 10)) (Number 10)"
  by (cases v) auto

text \<open>
  C10. The setter stores 1200 for \<^verbatim>\<open>NaN\<close>, stores \<open>-1\<close> unchanged, and stores
  \<^verbatim>\<open>Math.max(v, 10)\<close> for every other number; so the stored value is always \<open>-1\<close>
  or at least 10; and a constructor called without the option stores 1200.
\<close>

theorem autoPurge_set_spec:
  "autoPurge_set NaN = Number 1200
   \<and> autoPurge_set (Number (- 1)) = Number (- 1)
   \<and> autoPurge_set v =
       (if v = NaN then Number 1200
        else if v = Number (- 1) then Number (- 1)
        else mathMax v (Number 10))
   \<and> (autoPurge_set v = Number (- 1) \<or> jsGreaterEq (autoPurge_set v) (Number 10))
   \<and> constructor_autoPurge None = Number 1200"
proof -
  have nan: "autoPurge_set NaN = Number 1200"
    by (simp add: autoPurge_set_def isNaN_def)
  have off: "autoPurge_set (Number (- 1)) = Number (- 1)"
    by (simp add: autoPurge_set_def isNaN_def)
  have eq: "autoPurge_set v =
       (if v = NaN then Number 1200
        else if v = Number (- 1) then Number (- 1)
        else mathMax v (Number 10))"
    by (simp add: autoPurge_set_def isNaN_def)
  have rng: "autoPurge_set v = Number (- 1) \<or> jsGreaterEq (autoPurge_set v) (Number 10)"
  proof (cases "v = NaN \<or> v = Number (- 1)")
    case True
    then show ?thesis using nan off by auto
  next
    case False
    then have "autoPurge_set v = mathMax v (Number 10)" using eq by simp
    moreover have "mathMax v (Number 10) \<noteq> NaN" using False by (cases v) auto
    ultimately show ?thesis using mathMax_ten_cases [of v] by simp
  qed
  have dflt: "constructor_autoPurge None = Number 1200"
    by (simp add: constructor_autoPurge_def autoPurge_set_def isNaN_def)
  from nan off eq rng dflt show ?thesis by blast
qed

theorem autoPurge_set_spec_witness:
  "autoPurge_set (Number 3) = Number 10
   \<and> autoPurge_set (Number 5000) = Number 5000
   \<and> autoPurge_set NegInfinity = Number 10
   \<and> jsGreaterEq (autoPurge_set (Number 3)) (Number 10)"
  using autoPurge_set_spec [of "Number 3"] autoPurge_set_spec [of "Number 5000"]
    autoPurge_set_spec [of NegInfinity]
  by simp

subsection \<open>Frame facts of the small operations\<close>

lemma renderBatch_batchTextureCount: "batchTextureCount (renderBatch s) = batchTextureCount s"
  by (simp add: renderBatch_def)

lemma refreshTexture_batchTextureCount:
  "refreshTexture t s = Inr s' \<Longrightarrow> batchTextureCount s' = batchTextureCount s"
  by (auto simp: refreshTexture_def updateTextureImageData_def Let_def
      split: option.splits list.splits if_splits)

lemma insertTextureInBatch_batchTextureCount:
  "insertTextureInBatch t s = Inr s' \<Longrightarrow> batchTextureCount s' = batchTextureCount s"
  by (auto simp: insertTextureInBatch_def Let_def stampTexture_def setSlot_def
      renderBatch_batchTextureCount
      split: if_splits sum.splits option.splits dest!: refreshTexture_batchTextureCount)

lemma renderBatch_directDraw: "directDraw (renderBatch s) = directDraw s"
  by (simp add: renderBatch_def)

lemma switchRenderMode_directDraw: "directDraw (switchRenderMode m sd s) = directDraw s"
  by (simp add: switchRenderMode_def Let_def renderBatch_directDraw)

lemma updateRenderMode_directDraw: "directDraw (updateRenderMode h m s) = directDraw s"
  by (simp add: updateRenderMode_def Let_def switchRenderMode_directDraw split: option.splits)

subsection \<open>C8: the sampler count degrades by halving\<close>

lemma batchShaderLoop_find:
  "batchShaderLoop h n =
     (case find (batchShaderLinks h) (halvings n) of
        Some k \<Rightarrow> Inr k
      | None \<Rightarrow> Inl (Thrown ''Cannot compile shader''))"
proof (induction n rule: halvings.induct)
  case (1 n)
  show ?case
  proof (cases "n \<le> 1")
    case True
    then show ?thesis
      by (subst batchShaderLoop.simps, subst halvings.simps) simp
  next
    case False
    with 1 show ?thesis
      by (subst batchShaderLoop.simps, subst halvings.simps) simp
  qed
qed

lemma initMaterials_result:
  "initMaterials h s = Inr s' \<Longrightarrow>
     batchShaderLoop h (MAX_TEXTURE_IMAGE_UNITS h) = Inr (batchTextureCount s')
     \<and> length (batchTextures s') = batchTextureCount s'
     \<and> length (baseTextures s') = batchTextureCount s'"
  by (auto simp: initMaterials_def Let_def getBaseTexture_def split: sum.splits if_splits)

lemma initMaterials_fails:
  "batchShaderLoop h (MAX_TEXTURE_IMAGE_UNITS h) = Inl e \<Longrightarrow> initMaterials h s = Inl e"
  by (simp add: initMaterials_def Let_def)

lemma initMaterials_succeeds:
  "batchShaderLoop h (MAX_TEXTURE_IMAGE_UNITS h) = Inr k \<Longrightarrow> createTextureOk h \<Longrightarrow>
   \<exists>s'. initMaterials h s = Inr s'"
  by (simp add: initMaterials_def Let_def getBaseTexture_def)

lemma initializeWebGL_fails:
  "initMaterials h (createBuffers s) = Inl e \<Longrightarrow> initializeWebGL h cw ch s = Inl e"
  by (simp add: initializeWebGL_def)

text \<open>
  C8. \<^verbatim>\<open>_initMaterials\<close> tries the main batch shader with the device's sampler count
  and then with each halving of it down to 1, and keeps the first count that compiles: the
  loop returns that count, and throws when none of them compiles, in which case
  \<^verbatim>\<open>_initMaterials\<close> and the constructor throw the same and there is no renderer. When
  it returns (which it does as soon as a count compiles and the filler texture can be
  made), the surviving count is \<^verbatim>\<open>_batchTextureCount\<close> and the number of batch
  texture slots, and flushing a batch or inserting a texture leaves it as it is.
\<close>

theorem initMaterials_halves_sampler_count:
  "batchShaderLoop h n =
     (case find (batchShaderLinks h) (halvings n) of
        Some k \<Rightarrow> Inr k
      | None \<Rightarrow> Inl (Thrown ''Cannot compile shader''))
   \<and> (find (batchShaderLinks h) (halvings (MAX_TEXTURE_IMAGE_UNITS h)) = None \<longrightarrow>
        initMaterials h s = Inl (Thrown ''Cannot compile shader'')
        \<and> constructStage h direct batchSize imgs cw ch = Inl (Thrown ''Cannot compile shader''))
   \<and> (\<forall>k. find (batchShaderLinks h) (halvings (MAX_TEXTURE_IMAGE_UNITS h)) = Some k
            \<and> createTextureOk h \<longrightarrow> (\<exists>s'. initMaterials h s = Inr s'))
   \<and> (\<forall>s'. initMaterials h s = Inr s' \<longrightarrow>
          find (batchShaderLinks h) (halvings (MAX_TEXTURE_IMAGE_UNITS h))
            = Some (batchTextureCount s')
          \<and> length (batchTextures s') = batchTextureCount s')
   \<and> batchTextureCount (renderBatch s) = batchTextureCount s
   \<and> (\<forall>t s'. insertTextureInBatch t s = Inr s' \<longrightarrow> batchTextureCount s' = batchTextureCount s)"
proof -
  let ?f = "find (batchShaderLinks h) (halvings (MAX_TEXTURE_IMAGE_UNITS h))"
  have none: "?f = None \<longrightarrow>
        initMaterials h s = Inl (Thrown ''Cannot compile shader'')
        \<and> constructStage h direct batchSize imgs cw ch = Inl (Thrown ''Cannot compile shader'')"
  proof
    assume "?f = None"
    then have l: "batchShaderLoop h (MAX_TEXTURE_IMAGE_UNITS h) = Inl (Thrown ''Cannot compile shader'')"
      by (simp add: batchShaderLoop_find)
    show "initMaterials h s = Inl (Thrown ''Cannot compile shader'')
        \<and> constructStage h direct batchSize imgs cw ch = Inl (Thrown ''Cannot compile shader'')"
      using initMaterials_fails [OF l] initializeWebGL_fails
      by (simp add: constructStage_def)
  qed
  have some: "\<forall>k. ?f = Some k \<and> createTextureOk h \<longrightarrow> (\<exists>s'. initMaterials h s = Inr s')"
  proof (intro allI impI)
    fix k assume a: "?f = Some k \<and> createTextureOk h"
    then have "batchShaderLoop h (MAX_TEXTURE_IMAGE_UNITS h) = Inr k"
      by (simp add: batchShaderLoop_find)
    with a show "\<exists>s'. initMaterials h s = Inr s'"
      using initMaterials_succeeds by blast
  qed
  have res: "\<forall>s'. initMaterials h s = Inr s' \<longrightarrow>
          ?f = Some (batchTextureCount s') \<and> length (batchTextures s') = batchTextureCount s'"
  proof (intro allI impI)
    fix s' assume "initMaterials h s = Inr s'"
    from initMaterials_result [OF this]
    show "?f = Some (batchTextureCount s') \<and> length (batchTextures s') = batchTextureCount s'"
      by (auto simp: batchShaderLoop_find split: option.splits)
  qed
  show ?thesis
    using batchShaderLoop_find none some res renderBatch_batchTextureCount
      insertTextureInBatch_batchTextureCount
    by blast
qed

theorem initMaterials_halves_sampler_count_witness:
  "batchShaderLoop (sampleHost 5) 16 = Inr 4
   \<and> (\<exists>s'. initMaterials (sampleHost 5) (newStage True 170 sampleImages) = Inr s')
   \<and> constructStage (sampleHost 0) True 170 sampleImages 800 600
       = Inl (Thrown ''Cannot compile shader'')"
proof -
  have h16: "halvings 16 = [16, 8, 4, 2, 1]"
    by (simp add: halvings.simps)
  have f5: "find (batchShaderLinks (sampleHost 5)) (halvings 16) = Some 4"
    by (simp add: h16 sampleHost_def)
  have f0: "find (batchShaderLinks (sampleHost 0)) (halvings 16) = None"
    by (simp add: h16 sampleHost_def)
  have m: "MAX_TEXTURE_IMAGE_UNITS (sampleHost n) = 16" "createTextureOk (sampleHost n)" for n
    by (simp_all add: sampleHost_def)
  show ?thesis
    using initMaterials_halves_sampler_count
            [of "sampleHost 5" 16 "newStage True 170 sampleImages" True 170 sampleImages 800 600]
          initMaterials_halves_sampler_count
            [of "sampleHost 0" 16 "newStage True 170 sampleImages" True 170 sampleImages 800 600]
    by (simp add: f5 f0 m)
qed

subsection \<open>C9: getRenderBufferTexture reads unbound identifiers\<close>

lemma getRenderBufferTexture_unbound:
  "globalScope h ''w'' = None \<or> globalScope h ''h'' = None \<Longrightarrow>
   getRenderBufferTexture h width height s = Inl (ReferenceError ''w'')
   \<or> getRenderBufferTexture h width height s = Inl (ReferenceError ''h'')"
  by (auto simp: getRenderBufferTexture_def getRenderBufferTexture_scope_def moduleScope_def
      split: option.splits)

lemma getRenderBufferTexture_not_Inr:
  "globalScope h ''w'' = None \<or> globalScope h ''h'' = None \<Longrightarrow>
   getRenderBufferTexture h width height s \<noteq> Inr r"
  using getRenderBufferTexture_unbound [of h width height s] by auto

lemma initMaterials_directDraw:
  "initMaterials h s = Inr s' \<Longrightarrow> directDraw s' = directDraw s"
  by (auto simp: initMaterials_def Let_def getBaseTexture_def split: sum.splits if_splits)

lemma initializeWebGL_no_buffer:
  assumes g: "globalScope h ''w'' = None \<or> globalScope h ''h'' = None" and d: "\<not> directDraw s"
  shows "initializeWebGL h cw ch s \<noteq> Inr s'"
proof (cases "initMaterials h (createBuffers s)")
  case (Inl e)
  then show ?thesis by (simp add: initializeWebGL_def)
next
  case (Inr s1)
  then have "directDraw s1 = directDraw s"
    using initMaterials_directDraw [of h "createBuffers s" s1] by (simp add: createBuffers_def)
  with d Inr show ?thesis
    using getRenderBufferTexture_not_Inr [OF g]
    by (auto simp: initializeWebGL_def Let_def updateRenderMode_directDraw split: sum.splits)
qed

lemma acquireBuffer_None:
  "globalScope h ''w'' = None \<or> globalScope h ''h'' = None \<Longrightarrow> acquireBuffer h None s \<noteq> Inr r"
  using getRenderBufferTexture_not_Inr [of h]
  by (auto simp: acquireBuffer_def split: sum.splits)

lemma acquireBuffer_state:
  "acquireBuffer h (Some c) s = Inr (r, s') \<Longrightarrow> s' = s \<and> r = Some c"
  by (auto simp: acquireBuffer_def split: target.splits)

lemma immediateBatchRender_no_buffer:
  assumes g: "globalScope h ''w'' = None \<or> globalScope h ''h'' = None"
    and b: "batchTextureConcat s = None \<or> batchTextureTemp s = None"
  shows "immediateBatchRender h s \<noteq> Inr s'"
proof (cases "batchTextureConcat s")
  case None
  then show ?thesis using acquireBuffer_None [OF g, of s]
    by (auto simp: immediateBatchRender_def split: sum.splits)
next
  case (Some c)
  with b have t: "batchTextureTemp s = None" by simp
  show ?thesis
  proof (cases "acquireBuffer h (Some c) s")
    case (Inl e)
    with Some show ?thesis by (simp add: immediateBatchRender_def)
  next
    case (Inr r)
    then obtain cc s1 where r: "r = (cc, s1)" by (cases r)
    with Inr have "s1 = s" using acquireBuffer_state [of h c s cc s1] by simp
    with Some Inr r t show ?thesis
      using acquireBuffer_None [OF g, of "s\<lparr>batchTextureConcat := cc\<rparr>"]
      by (auto simp: immediateBatchRender_def split: sum.splits)
  qed
qed

lemma cacheUpdateBuffers_no_buffer:
  assumes g: "globalScope h ''w'' = None \<or> globalScope h ''h'' = None"
    and b: "fst bufs = None \<or> (filterCount \<ge> 1 \<and> snd bufs = None)"
  shows "cacheUpdateBuffers h bufs filterCount dw dh s \<noteq> Inr r"
  using b getRenderBufferTexture_not_Inr [OF g]
  by (auto simp: cacheUpdateBuffers_def split: sum.splits option.splits if_splits)

text \<open>
  C9. \<^verbatim>\<open>getRenderBufferTexture(width, height)\<close> names \<^verbatim>\<open>w\<close> and \<^verbatim>\<open>h\<close>, which
  neither the method nor its module binds; unless the global object defines both, every
  call ends in a \<^verbatim>\<open>ReferenceError\<close> and returns no texture. So does every path that
  needs a render texture: the constructor with \<^verbatim>\<open>directDraw\<close> off, immediate rendering
  while one of its two buffers is \<^verbatim>\<open>null\<close>, and the buffer allocation of a cache
  drawn by the stage that has no output buffer yet (or no concat buffer and a filter).
\<close>

theorem getRenderBufferTexture_never_returns:
  assumes "globalScope h ''w'' = None \<or> globalScope h ''h'' = None"
  shows "(getRenderBufferTexture h width height s = Inl (ReferenceError ''w'')
          \<or> getRenderBufferTexture h width height s = Inl (ReferenceError ''h''))
   \<and> (\<forall>s'. constructStage h False batchSize imgs cw ch \<noteq> Inr s')
   \<and> (batchTextureConcat s = None \<or> batchTextureTemp s = None \<longrightarrow>
        (\<forall>s'. immediateBatchRender h s \<noteq> Inr s'))
   \<and> (fst bufs = None \<or> (filterCount \<ge> 1 \<and> snd bufs = None) \<longrightarrow>
        (\<forall>r. cacheUpdateBuffers h bufs filterCount dw dh s \<noteq> Inr r))"
proof -
  have c: "\<forall>s'. constructStage h False batchSize imgs cw ch \<noteq> Inr s'"
    using initializeWebGL_no_buffer [OF assms, of "newStage False batchSize imgs" cw ch]
    by (simp add: constructStage_def newStage_def)
  show ?thesis
    using getRenderBufferTexture_unbound [OF assms, of width height s] c
      immediateBatchRender_no_buffer [OF assms, of s]
      cacheUpdateBuffers_no_buffer [OF assms, of bufs filterCount dw dh s]
    by blast
qed

theorem getRenderBufferTexture_never_returns_witness:
  "getRenderBufferTexture (sampleHost 16) 800 600 (newStage True 170 sampleImages)
     = Inl (ReferenceError ''w'')
   \<and> (\<forall>s'. constructStage (sampleHost 16) False 170 sampleImages 800 600 \<noteq> Inr s')
   \<and> (\<forall>s'. immediateBatchRender (sampleHost 16) (newStage True 170 sampleImages) \<noteq> Inr s')
   \<and> (\<forall>r. cacheUpdateBuffers (sampleHost 16) (None, None) 1 64 64
             (newStage True 170 sampleImages) \<noteq> Inr r)"
proof -
  have g: "globalScope (sampleHost 16) ''w'' = None \<or> globalScope (sampleHost 16) ''h'' = None"
    by (simp add: sampleHost_def)
  have b: "batchTextureConcat (newStage True 170 sampleImages) = None"
    by (simp add: newStage_def)
  have w: "getRenderBufferTexture (sampleHost 16) 800 600 (newStage True 170 sampleImages)
     \<noteq> Inl (ReferenceError ''h'')"
    by (simp add: getRenderBufferTexture_def getRenderBufferTexture_scope_def moduleScope_def
        sampleHost_def)
  show ?thesis
    using getRenderBufferTexture_never_returns
            [OF g, of 800 600 "newStage True 170 sampleImages" 170 sampleImages 800 600
               "(None, None)" 1 64 64] b w
    by simp
qed

subsection \<open>The sample stage is the constructed one\<close>

lemma maxv: "constructor_maxBatchVertexCount 170 = 1020"
  by (simp add: constructor_maxBatchVertexCount_def
     INDICIES_PER_CARD_def DEFAULT_MAX_BATCH_SIZE_def DEFAULT_MIN_BATCH_SIZE_def)

lemma loop2: "batchShaderLoop (sampleHost 2) 16 = Inr 2"
  by (simp add: batchShaderLoop_find halvings.simps sampleHost_def)

lemma r2: "replicate 2 (0::nat) = [0, 0]"
  by (simp add: numeral_2_eq_2)

lemma constructStage_sample:
  "constructStage (sampleHost 2) True 170 sampleImages 800 600 = Inr sampleStage"
  by (simp add: constructStage_def initializeWebGL_def createBuffers_def initMaterials_def
      getBaseTexture_def Let_def newStage_def maxv sampleHost_def loop2 [unfolded sampleHost_def]
      updateRenderMode_def switchRenderMode_def renderBatch_def truthy_def r2 sampleStage_def)

subsection \<open>C2: the round-robin slot search\<close>

lemma wrap_not_start:
  assumes "start < n" "0 < j" "j < (n::nat)"
  shows "(start + j) mod n \<noteq> start"
proof
  assume "(start + j) mod n = start"
  then have "(start + j) mod n = start mod n" using assms by simp
  then have "n dvd (start + j) - start"
    by (metis add_diff_cancel_left' mod_eq_dvd_iff_nat le_add1)
  then have "n dvd j" by simp
  with assms show False by (auto dest: dvd_imp_le)
qed

lemma slotScan_from:
  assumes st: "start < batchTextureCount s" and ln: "batchTextureCount s \<le> length (batchTextures s)"
  shows "k < batchTextureCount s \<Longrightarrow>
     slotScan s start ((start + k) mod batchTextureCount s)
       = Inr (find (slotEvictable s) (map (\<lambda>j. (start + j) mod batchTextureCount s) [k..<batchTextureCount s]))"
proof (induction "batchTextureCount s - k" arbitrary: k)
  case 0
  then show ?case by simp
next
  case (Suc m)
  let ?n = "batchTextureCount s"
  let ?look = "(start + k) mod ?n"
  have n0: "0 < ?n" using st by simp
  have lk: "?look < ?n" using n0 by simp
  have guard: "start < ?n \<and> ?look < ?n \<and> ?look < length (batchTextures s)"
    using st lk ln by linarith
  have nxt: "(?look + 1) mod ?n = (start + Suc k) mod ?n"
    by (simp add: mod_Suc_eq)
  have up: "[k..<?n] = k # [Suc k..<?n]" using Suc.prems by (simp add: upt_conv_Cons)
  show ?case
  proof (cases "slotEvictable s ?look")
    case True
    then show ?thesis using guard up by (subst slotScan.simps) simp
  next
    case False
    show ?thesis
    proof (cases "Suc k < ?n")
      case True
      then have ne: "(start + Suc k) mod ?n \<noteq> start"
        using wrap_not_start [OF st, of "Suc k"] by simp
      have "batchTextureCount s - Suc k = m" using Suc.hyps(2) by simp
      from Suc.hyps(1) [OF this [symmetric] True]
      have ih: "slotScan s start ((start + Suc k) mod ?n)
         = Inr (find (slotEvictable s) (map (\<lambda>j. (start + j) mod ?n) [Suc k..<?n]))" .
      show ?thesis using False guard ne ih up nxt
        by (subst slotScan.simps) simp
    next
      case F2: False
      with Suc.prems have e: "Suc k = ?n" by simp
      then have "(start + Suc k) mod ?n = start" using st by simp
      moreover have "[Suc k..<?n] = []" using e by simp
      ultimately show ?thesis using False guard up nxt
        by (subst slotScan.simps) simp
    qed
  qed
qed

lemma slotScan_roundRobin:
  assumes "start < batchTextureCount s" "batchTextureCount s \<le> length (batchTextures s)"
  shows "slotScan s start start = Inr (find (slotEvictable s) (roundRobin start (batchTextureCount s)))"
  using slotScan_from [OF assms, of 0] assms by (simp add: roundRobin_def)

lemma refreshTexture_shape:
  "refreshTexture t s = Inr s' \<Longrightarrow> \<exists>im. s' = s\<lparr>images := im\<rparr>"
proof -
  assume a: "refreshTexture t s = Inr s'"
  have u: "updateTextureImageData i s = Inr x \<Longrightarrow> \<exists>im. x = s\<lparr>images := im\<rparr>" for i x
  proof -
    assume b: "updateTextureImageData i s = Inr x"
    have "x = s \<or> x = s\<lparr>images := (images s)(i := (images s i)\<lparr>img_invalid := Some False\<rparr>)\<rparr>"
      using b by (auto simp: updateTextureImageData_def Let_def split: if_splits option.splits)
    moreover have "s = s\<lparr>images := images s\<rparr>" by simp
    ultimately show ?thesis by metis
  qed
  have "s' = s \<or> (\<exists>i. updateTextureImageData i s = Inr s')"
    using a by (auto simp: refreshTexture_def Let_def split: option.splits list.splits if_splits)
  moreover have "s = s\<lparr>images := images s\<rparr>" by simp
  ultimately show ?thesis using u by metis
qed

lemma refreshTexture_independent:
  assumes "tex_imageData (textures s1 t) = tex_imageData (textures s t)"
    "images s1 = images s" "textureDictionary s1 = textureDictionary s"
  shows "(\<exists>x. refreshTexture t s1 = Inr x) = (\<exists>x. refreshTexture t s = Inr x)"
  using assms
  by (auto simp: refreshTexture_def updateTextureImageData_def dictLookup_def Let_def
      split: option.splits list.splits)

lemma firstEvictable_range:
  "firstEvictable s = Some k \<Longrightarrow> 0 < batchTextureCount s \<Longrightarrow> k < batchTextureCount s"
  by (auto simp: firstEvictable_def roundRobin_def find_Some_iff)

lemma insert_found:
  assumes free: "\<not> occupiesRecordedSlot s t"
    and cnt: "0 < batchTextureCount s" "batchTextureCount s \<le> length (batchTextures s)"
    and fe: "firstEvictable s = Some k"
    and res: "insertTextureInBatch t s = Inr s'"
  shows "\<exists>im. s' = stampTexture t ((setSlot t k s)\<lparr>images := im, lastTextureInsert := int k\<rparr>)"
proof -
  have st: "slotStart s < batchTextureCount s" using cnt by (simp add: slotStart_def)
  have sc: "slotScan s (slotStart s) (slotStart s) = Inr (Some k)"
    using slotScan_roundRobin [OF st cnt(2)] fe by (simp add: firstEvictable_def slotStart_def)
  from res free cnt sc obtain s2 where r: "refreshTexture t (setSlot t k s) = Inr s2"
    and s': "s' = stampTexture t (s2\<lparr>lastTextureInsert := int k\<rparr>)"
    by (auto simp: insertTextureInBatch_def Let_def split: sum.splits)
  from refreshTexture_shape [OF r] obtain im where "s2 = (setSlot t k s)\<lparr>images := im\<rparr>" by blast
  with s' show ?thesis by auto
qed

lemma insert_overflow:
  assumes free: "\<not> occupiesRecordedSlot s t"
    and cnt: "0 < batchTextureCount s" "batchTextureCount s \<le> length (batchTextures s)"
    and fe: "firstEvictable s = None"
    and res: "insertTextureInBatch t s = Inr s'"
  shows "\<exists>im. s' = stampTexture t
     ((setSlot t (slotStart s) (renderBatch (s\<lparr>batchReason := ''textureOverflow''\<rparr>)))
        \<lparr>images := im, lastTextureInsert := int (slotStart s)\<rparr>)"
proof -
  have st: "slotStart s < batchTextureCount s" using cnt by (simp add: slotStart_def)
  have sc: "slotScan s (slotStart s) (slotStart s) = Inr None"
    using slotScan_roundRobin [OF st cnt(2)] fe by (simp add: firstEvictable_def slotStart_def)
  let ?s1 = "renderBatch (s\<lparr>batchReason := ''textureOverflow''\<rparr>)"
  from res free cnt sc obtain s2 where r: "refreshTexture t (setSlot t (slotStart s) ?s1) = Inr s2"
    and s': "s' = stampTexture t (s2\<lparr>lastTextureInsert := int (slotStart s)\<rparr>)"
    by (auto simp: insertTextureInBatch_def Let_def split: sum.splits)
  from refreshTexture_shape [OF r] obtain im where "s2 = (setSlot t (slotStart s) ?s1)\<lparr>images := im\<rparr>" by blast
  with s' show ?thesis by auto
qed

lemma refreshTexture_setSlot:
  "(\<exists>x. refreshTexture t (setSlot t k s) = Inr x) = (\<exists>x. refreshTexture t s = Inr x)"
  by (rule refreshTexture_independent) (simp_all add: setSlot_def)

lemma refreshTexture_setSlot_renderBatch:
  "(\<exists>x. refreshTexture t (setSlot t k (renderBatch (s\<lparr>batchReason := r\<rparr>))) = Inr x)
   = (\<exists>x. refreshTexture t s = Inr x)"
  by (rule refreshTexture_independent) (simp_all add: setSlot_def renderBatch_def)

lemma insert_returns:
  assumes free: "\<not> occupiesRecordedSlot s t"
    and cnt: "0 < batchTextureCount s" "batchTextureCount s \<le> length (batchTextures s)"
    and rf: "refreshTexture t s = Inr x"
  shows "\<exists>s'. insertTextureInBatch t s = Inr s'"
proof -
  have st: "slotStart s < batchTextureCount s" using cnt by (simp add: slotStart_def)
  note sc = slotScan_roundRobin [OF st cnt(2)]
  show ?thesis
  proof (cases "find (slotEvictable s) (roundRobin (slotStart s) (batchTextureCount s))")
    case None
    from refreshTexture_setSlot_renderBatch [where t = t and k = "slotStart s" and s = s
        and r = "''textureOverflow''"] rf
    obtain y where "refreshTexture t (setSlot t (slotStart s)
       (renderBatch (s\<lparr>batchReason := ''textureOverflow''\<rparr>))) = Inr y" by blast
    with None free cnt sc show ?thesis
      by (simp add: insertTextureInBatch_def Let_def)
  next
    case (Some k)
    from refreshTexture_setSlot [where t = t and k = k and s = s] rf
    obtain y where "refreshTexture t (setSlot t k s) = Inr y" by blast
    with Some free cnt sc show ?thesis
      by (simp add: insertTextureInBatch_def Let_def)
  qed
qed

text \<open>
  C2. For a texture that does not occupy its recorded slot (on a stage with at least one
  slot, all of them filled), \<^verbatim>\<open>_insertTextureInBatch\<close> returns as soon as the upload
  of the texture's first source does not fail, and then: the search starts at
  \<open>(lastTextureInsert + 1) mod batchTextureCount\<close> and takes the first slot in
  round-robin order whose occupant has another \<^verbatim>\<open>_batchID\<close> than the current batch
  and that is not blacklisted, without a flush; when no slot qualifies, the batch is
  flushed with the reason \<^verbatim>\<open>textureOverflow\<close> and the starting slot is taken. The
  chosen slot then holds the texture, every other slot keeps its occupant, the texture
  records the chosen slot, the current batch id and the current draw id, and the chosen
  slot is the last inserted one.
\<close>

theorem insertTextureInBatch_round_robin:
  assumes free: "\<not> occupiesRecordedSlot s t"
    and cnt: "0 < batchTextureCount s" "batchTextureCount s \<le> length (batchTextures s)"
    and li: "- 1 \<le> lastTextureInsert s"
  shows "((\<exists>x. refreshTexture t s = Inr x) \<longrightarrow> (\<exists>s'. insertTextureInBatch t s = Inr s'))
   \<and> (\<forall>s'. insertTextureInBatch t s = Inr s' \<longrightarrow>
        (let start = nat (lastTextureInsert s + 1) mod batchTextureCount s;
             chosen = (case firstEvictable s of Some k \<Rightarrow> k | None \<Rightarrow> start)
         in (firstEvictable s \<noteq> None \<longrightarrow>
               history s' = history s \<and> batchVertexCount s' = batchVertexCount s
               \<and> batchID s' = batchID s)
          \<and> (firstEvictable s = None \<longrightarrow>
               history s' = history (renderBatch (s\<lparr>batchReason := ''textureOverflow''\<rparr>))
               \<and> batchID s' = batchID (renderBatch (s\<lparr>batchReason := ''textureOverflow''\<rparr>))
               \<and> batchVertexCount s' = 0)
          \<and> chosen < batchTextureCount s
          \<and> batchTextures s' = (batchTextures s)[chosen := t]
          \<and> batchTextures s' ! chosen = t
          \<and> tex_activeIndex (textures s' t) = Some chosen
          \<and> tex_batchID (textures s' t) = Some (batchID s')
          \<and> tex_drawID (textures s' t) = Some (drawID s')
          \<and> lastTextureInsert s' = int chosen))"
proof (intro conjI allI impI)
  assume "\<exists>x. refreshTexture t s = Inr x"
  then show "\<exists>s'. insertTextureInBatch t s = Inr s'"
    using insert_returns [OF free cnt] by blast
next
  fix s' assume res: "insertTextureInBatch t s = Inr s'"
  have st: "slotStart s < batchTextureCount s" using cnt by (simp add: slotStart_def)
  show "let start = nat (lastTextureInsert s + 1) mod batchTextureCount s;
             chosen = (case firstEvictable s of Some k \<Rightarrow> k | None \<Rightarrow> start)
         in (firstEvictable s \<noteq> None \<longrightarrow>
               history s' = history s \<and> batchVertexCount s' = batchVertexCount s
               \<and> batchID s' = batchID s)
          \<and> (firstEvictable s = None \<longrightarrow>
               history s' = history (renderBatch (s\<lparr>batchReason := ''textureOverflow''\<rparr>))
               \<and> batchID s' = batchID (renderBatch (s\<lparr>batchReason := ''textureOverflow''\<rparr>))
               \<and> batchVertexCount s' = 0)
          \<and> chosen < batchTextureCount s
          \<and> batchTextures s' = (batchTextures s)[chosen := t]
          \<and> batchTextures s' ! chosen = t
          \<and> tex_activeIndex (textures s' t) = Some chosen
          \<and> tex_batchID (textures s' t) = Some (batchID s')
          \<and> tex_drawID (textures s' t) = Some (drawID s')
          \<and> lastTextureInsert s' = int chosen"
  proof (cases "firstEvictable s")
    case None
    from insert_overflow [OF free cnt None res] obtain im where
      s': "s' = stampTexture t
       ((setSlot t (slotStart s) (renderBatch (s\<lparr>batchReason := ''textureOverflow''\<rparr>)))
          \<lparr>images := im, lastTextureInsert := int (slotStart s)\<rparr>)" by blast
    have rb: "batchVertexCount (renderBatch x) = 0" for x by (simp add: renderBatch_def)
    have rbt: "batchTextures (renderBatch x) = batchTextures x" for x by (simp add: renderBatch_def)
    have sl: "nat (lastTextureInsert s + 1) mod batchTextureCount s < length (batchTextures s)"
      using st cnt unfolding slotStart_def by linarith
    show ?thesis using None st cnt sl
      unfolding Let_def s'
      by (simp add: stampTexture_def setSlot_def rb rbt slotStart_def)
  next
    case (Some k)
    from insert_found [OF free cnt Some res] obtain im where
      s': "s' = stampTexture t ((setSlot t k s)\<lparr>images := im, lastTextureInsert := int k\<rparr>)"
      by blast
    have kk: "k < batchTextureCount s" using firstEvictable_range [OF Some cnt(1)] .
    have kl: "k < length (batchTextures s)" using kk cnt by simp
    show ?thesis using Some kk kl
      unfolding Let_def s'
      by (simp add: stampTexture_def setSlot_def)
  qed
qed

lemma rr2: "roundRobin k 2 = [k mod 2, Suc k mod 2]"
  by (simp add: roundRobin_def numeral_2_eq_2)

theorem insertTextureInBatch_round_robin_witness:
  "(\<exists>s'. insertTextureInBatch 5 sampleStage = Inr s'
         \<and> batchTextures s' = [5, 0] \<and> tex_activeIndex (textures s' 5) = Some 0
         \<and> tex_batchID (textures s' 5) = Some 0 \<and> lastTextureInsert s' = 0
         \<and> history s' = [])
   \<and> (\<exists>s'. insertTextureInBatch 7 fullStage = Inr s'
         \<and> batchTextures s' = [7, 6] \<and> tex_activeIndex (textures s' 7) = Some 0
         \<and> tex_batchID (textures s' 7) = Some 1 \<and> batchVertexCount s' = 0
         \<and> (\<exists>d. history s' = [DrawArrays d] \<and> dc_reason d = ''textureOverflow'' \<and> dc_count d = 6))"
proof -
  have a1: "\<not> occupiesRecordedSlot sampleStage 5"
    by (simp add: occupiesRecordedSlot_def sampleStage_def blankTexture_def)
  have a2: "0 < batchTextureCount sampleStage"
    "batchTextureCount sampleStage \<le> length (batchTextures sampleStage)"
    "- 1 \<le> lastTextureInsert sampleStage"
    by (simp_all add: sampleStage_def)
  have a3: "refreshTexture 5 sampleStage = Inr sampleStage"
    by (simp add: refreshTexture_def sampleStage_def blankTexture_def)
  have a4: "firstEvictable sampleStage = Some 0"
    by (simp add: firstEvictable_def rr2 slotEvictable_def sampleStage_def blankTexture_def)
  have b1: "\<not> occupiesRecordedSlot fullStage 7"
    by (simp add: occupiesRecordedSlot_def fullStage_def sampleStage_def blankTexture_def)
  have b2: "0 < batchTextureCount fullStage"
    "batchTextureCount fullStage \<le> length (batchTextures fullStage)"
    "- 1 \<le> lastTextureInsert fullStage"
    by (simp_all add: fullStage_def sampleStage_def)
  have b3: "refreshTexture 7 fullStage = Inr fullStage"
    by (simp add: refreshTexture_def fullStage_def sampleStage_def blankTexture_def)
  have b4: "firstEvictable fullStage = None"
    by (simp add: firstEvictable_def rr2 slotEvictable_def fullStage_def sampleStage_def blankTexture_def)
  from insertTextureInBatch_round_robin [OF a1 a2, of] a3
  obtain s1 where s1: "insertTextureInBatch 5 sampleStage = Inr s1" by blast
  from insertTextureInBatch_round_robin [OF b1 b2] b3
  obtain s2 where s2: "insertTextureInBatch 7 fullStage = Inr s2" by blast
  have p1: "batchTextures s1 = [5, 0] \<and> tex_activeIndex (textures s1 5) = Some 0
         \<and> tex_batchID (textures s1 5) = Some 0 \<and> lastTextureInsert s1 = 0
         \<and> history s1 = []"
    using insertTextureInBatch_round_robin [OF a1 a2] s1 a4
    by (simp add: Let_def) (simp add: sampleStage_def)
  have p2: "batchTextures s2 = [7, 6] \<and> tex_activeIndex (textures s2 7) = Some 0
         \<and> tex_batchID (textures s2 7) = Some 1 \<and> batchVertexCount s2 = 0
         \<and> (\<exists>d. history s2 = [DrawArrays d] \<and> dc_reason d = ''textureOverflow'' \<and> dc_count d = 6)"
    using insertTextureInBatch_round_robin [OF b1 b2] s2 b4
    by (simp add: Let_def) (simp add: fullStage_def sampleStage_def renderBatch_def)
  from s1 p1 s2 p2 show ?thesis by blast
qed

subsection \<open>C7: purging textures\<close>

lemma arraySet_None_mono:
  "k < length (arraySet xs i None) \<Longrightarrow> arraySet xs i None ! k = Some t
   \<Longrightarrow> k < length xs \<and> xs ! k = Some t"
  by (auto simp: arraySet_def nth_list_update nth_append nth_Cons' split: if_splits)

lemma kill_dict_mono:
  "k < length (textureDictionary (killTextureObject t s)) \<Longrightarrow>
   textureDictionary (killTextureObject t s) ! k = Some u \<Longrightarrow>
   k < length (textureDictionary s) \<and> textureDictionary s ! k = Some u"
  by (auto simp: killTextureObject_def Let_def dropFromSlot_def unlinkTexture_def
      split: option.splits if_splits dest: arraySet_None_mono)

lemma kill_textures_other:
  "u \<noteq> t \<Longrightarrow> textures (killTextureObject t s) u = textures s u"
  by (auto simp: killTextureObject_def Let_def dropFromSlot_def unlinkTexture_def
      split: option.splits if_splits)

lemma kill_drawID: "drawID (killTextureObject t s) = drawID s"
  by (auto simp: killTextureObject_def Let_def dropFromSlot_def unlinkTexture_def
      split: option.splits if_splits)

lemma kill_images_empty:
  "tex_imageData (textures s t) = Some [] \<Longrightarrow> images (killTextureObject t s) = images s"
  by (auto simp: killTextureObject_def Let_def dropFromSlot_def unlinkTexture_def
      split: option.splits if_splits)

lemma purgeEntry_cases:
  obtains (skip) "purgeEntry n i s = s"
      "dictLookup s (Some i) = None
       \<or> (\<exists>t. dictLookup s (Some i) = Some t \<and> tex_imageData (textures s t) = None)"
    | (keep) t d where "dictLookup s (Some i) = Some t" "tex_imageData (textures s t) = Some d"
        "filter (\<lambda>j. \<not> purgeable n s j) d \<noteq> []" "purgeEntry n i s = purgeMark n s t d"
    | (kill) t d where "dictLookup s (Some i) = Some t" "tex_imageData (textures s t) = Some d"
        "filter (\<lambda>j. \<not> purgeable n s j) d = []"
        "purgeEntry n i s = killTextureObject t (purgeMark n s t d)"
proof (cases "dictLookup s (Some i)")
  case None
  then show ?thesis using skip by (simp add: purgeEntry_def)
next
  case (Some t)
  show ?thesis
  proof (cases "tex_imageData (textures s t)")
    case None
    with Some show ?thesis using skip by (simp add: purgeEntry_def)
  next
    case d: (Some d)
    show ?thesis
    proof (cases "filter (\<lambda>j. \<not> purgeable n s j) d = []")
      case True
      with Some d show ?thesis using kill [of t d]
        by (simp add: purgeEntry_def purgeMark_def Let_def)
    next
      case False
      with Some d show ?thesis using keep [of t d]
        by (simp add: purgeEntry_def purgeMark_def Let_def)
    qed
  qed
qed

lemma purgeMark_simps:
  "drawID (purgeMark n s t d) = drawID s"
  "textureDictionary (purgeMark n s t d) = textureDictionary s"
  "u \<noteq> t \<Longrightarrow> textures (purgeMark n s t d) u = textures s u"
  "textures (purgeMark n s t d) t
     = (textures s t)\<lparr>tex_imageData := Some (filter (\<lambda>j. \<not> purgeable n s j) d)\<rparr>"
  "images (purgeMark n s t d) j
     = (if j \<in> set d \<and> purgeable n s j then (images s j)\<lparr>img_storeID := None\<rparr> else images s j)"
  by (simp_all add: purgeMark_def)

lemma purgeEntry_drawID: "drawID (purgeEntry n i s) = drawID s"
  by (cases rule: purgeEntry_cases [of n i s]) (simp_all add: purgeMark_simps kill_drawID)

lemma purgeEntry_images:
  "images (purgeEntry n i s) j = images s j
   \<or> (purgeable n s j \<and> images (purgeEntry n i s) j = (images s j)\<lparr>img_storeID := None\<rparr>)"
proof (cases rule: purgeEntry_cases [of n i s])
  case skip
  then show ?thesis by simp
next
  case (keep t d)
  then show ?thesis by (simp add: purgeMark_simps)
next
  case (kill t d)
  have "tex_imageData (textures (purgeMark n s t d) t) = Some []"
    using kill by (simp add: purgeMark_simps)
  from kill_images_empty [OF this] kill show ?thesis by (simp add: purgeMark_simps)
qed

lemma purgeEntry_purgeable: "purgeable m (purgeEntry n i s) j = purgeable m s j"
  using purgeEntry_images [of n i s j]
  by (auto simp: purgeable_def purgeEntry_drawID split: option.splits)

lemma purgeEntry_dict_mono:
  "k < length (textureDictionary (purgeEntry n i s)) \<Longrightarrow>
   textureDictionary (purgeEntry n i s) ! k = Some u \<Longrightarrow>
   k < length (textureDictionary s) \<and> textureDictionary s ! k = Some u"
proof (cases rule: purgeEntry_cases [of n i s])
  case skip
  then show "k < length (textureDictionary (purgeEntry n i s)) \<Longrightarrow>
   textureDictionary (purgeEntry n i s) ! k = Some u \<Longrightarrow> ?thesis" by simp
next
  case (keep t d)
  then show "k < length (textureDictionary (purgeEntry n i s)) \<Longrightarrow>
   textureDictionary (purgeEntry n i s) ! k = Some u \<Longrightarrow> ?thesis" by (simp add: purgeMark_simps)
next
  case (kill t d)
  then show "k < length (textureDictionary (purgeEntry n i s)) \<Longrightarrow>
   textureDictionary (purgeEntry n i s) ! k = Some u \<Longrightarrow> ?thesis"
    using kill_dict_mono [of k t "purgeMark n s t d" u] by (simp add: purgeMark_simps)
qed

lemma purgeEntry_textures_other:
  "dictLookup s (Some i) \<noteq> Some u \<Longrightarrow> textures (purgeEntry n i s) u = textures s u"
  by (cases rule: purgeEntry_cases [of n i s])
     (auto simp: purgeMark_simps kill_textures_other)

lemma kill_at:
  assumes "tex_storeID (textures s t) = Some (int i)" "i < length (textureDictionary s)"
  shows "textureDictionary (killTextureObject t s) = (textureDictionary s)[i := None]"
    and "textures (killTextureObject t s) t
         = (textures s t)\<lparr>tex_imageData := None, tex_storeID := None,
                           tex_frameBuffer := False, tex_deleted := True\<rparr>"
  using assms
  by (auto simp: killTextureObject_def Let_def dropFromSlot_def unlinkTexture_def arraySet_def
      split: option.splits if_splits)

lemma purgeEntry_at:
  assumes i: "i < length (textureDictionary s)" and t: "textureDictionary s ! i = Some t"
    and d: "tex_imageData (textures s t) = Some d"
    and sid: "tex_storeID (textures s t) = Some (int i)"
  shows "textures (purgeEntry n i s) t
         = (if filter (\<lambda>j. \<not> purgeable n s j) d = []
            then (textures s t)\<lparr>tex_imageData := None, tex_storeID := None,
                                 tex_frameBuffer := False, tex_deleted := True\<rparr>
            else (textures s t)\<lparr>tex_imageData := Some (filter (\<lambda>j. \<not> purgeable n s j) d)\<rparr>)"
    and "textureDictionary (purgeEntry n i s)
         = (if filter (\<lambda>j. \<not> purgeable n s j) d = []
            then (textureDictionary s)[i := None] else textureDictionary s)"
    and "images (purgeEntry n i s) j
         = (if j \<in> set d \<and> purgeable n s j
            then (images s j)\<lparr>img_storeID := None\<rparr> else images s j)"
proof -
  have dl: "dictLookup s (Some i) = Some t" using i t by (simp add: dictLookup_def)
  let ?m = "purgeMark n s t d"
  have ms: "tex_storeID (textures ?m t) = Some (int i)" "i < length (textureDictionary ?m)"
    using sid i by (simp_all add: purgeMark_simps)
  have c: "purgeEntry n i s = (if filter (\<lambda>j. \<not> purgeable n s j) d = []
            then killTextureObject t ?m else ?m)"
    using dl d by (simp add: purgeEntry_def purgeMark_def Let_def)
  show "textures (purgeEntry n i s) t
         = (if filter (\<lambda>j. \<not> purgeable n s j) d = []
            then (textures s t)\<lparr>tex_imageData := None, tex_storeID := None,
                                 tex_frameBuffer := False, tex_deleted := True\<rparr>
            else (textures s t)\<lparr>tex_imageData := Some (filter (\<lambda>j. \<not> purgeable n s j) d)\<rparr>)"
    using c kill_at(2) [OF ms] by (simp add: purgeMark_simps)
  show "textureDictionary (purgeEntry n i s)
         = (if filter (\<lambda>j. \<not> purgeable n s j) d = []
            then (textureDictionary s)[i := None] else textureDictionary s)"
    using c kill_at(1) [OF ms] by (simp add: purgeMark_simps)
  show "images (purgeEntry n i s) j
         = (if j \<in> set d \<and> purgeable n s j
            then (images s j)\<lparr>img_storeID := None\<rparr> else images s j)"
  proof (cases "filter (\<lambda>j. \<not> purgeable n s j) d = []")
    case True
    then have "tex_imageData (textures ?m t) = Some []" by (simp add: purgeMark_simps)
    from kill_images_empty [OF this] c True show ?thesis by (simp add: purgeMark_simps)
  next
    case False
    with c show ?thesis by (simp add: purgeMark_simps)
  qed
qed

lemma registryOk_unique:
  assumes "registryOk s" "i < length (textureDictionary s)" "textureDictionary s ! i = Some t"
    "tex_imageData (textures s t) = Some d"
    "k < length (textureDictionary s)" "textureDictionary s ! k = Some t"
  shows "k = i"
proof -
  from assms have "tex_storeID (textures s t) = Some (int i)" "tex_storeID (textures s t) = Some (int k)"
    unfolding registryOk_def by blast+
  then show ?thesis by simp
qed

lemma purgeEntry_skip:
  assumes "\<not> (\<exists>t d. i < length (textureDictionary s) \<and> textureDictionary s ! i = Some t
                   \<and> tex_imageData (textures s t) = Some d)"
  shows "purgeEntry n i s = s"
  using assms
  by (cases rule: purgeEntry_cases [of n i s]) (auto simp: dictLookup_def split: if_splits)

lemma purgeEntry_length:
  assumes "registryOk s"
  shows "length (textureDictionary (purgeEntry n i s)) = length (textureDictionary s)"
proof (cases "\<exists>t d. i < length (textureDictionary s) \<and> textureDictionary s ! i = Some t
                   \<and> tex_imageData (textures s t) = Some d")
  case True
  then obtain t d where a: "i < length (textureDictionary s)" "textureDictionary s ! i = Some t"
    "tex_imageData (textures s t) = Some d" by blast
  with assms have "tex_storeID (textures s t) = Some (int i)" unfolding registryOk_def by blast
  from purgeEntry_at(2) [OF a this] show ?thesis by simp
next
  case False
  then show ?thesis by (simp add: purgeEntry_skip)
qed

lemma purgeEntry_dict_other:
  assumes "registryOk s" "k \<noteq> i"
  shows "textureDictionary (purgeEntry n i s) ! k = textureDictionary s ! k"
proof (cases "\<exists>t d. i < length (textureDictionary s) \<and> textureDictionary s ! i = Some t
                   \<and> tex_imageData (textures s t) = Some d")
  case True
  then obtain t d where a: "i < length (textureDictionary s)" "textureDictionary s ! i = Some t"
    "tex_imageData (textures s t) = Some d" by blast
  with assms have "tex_storeID (textures s t) = Some (int i)" unfolding registryOk_def by blast
  from purgeEntry_at(2) [OF a this] assms(2) show ?thesis by simp
next
  case False
  then show ?thesis by (simp add: purgeEntry_skip)
qed

lemma purgeEntry_registryOk:
  assumes ok: "registryOk s"
  shows "registryOk (purgeEntry n i s)"
proof (cases "\<exists>t d. i < length (textureDictionary s) \<and> textureDictionary s ! i = Some t
                   \<and> tex_imageData (textures s t) = Some d")
  case False
  then show ?thesis using ok by (simp add: purgeEntry_skip)
next
  case True
  then obtain t d where a: "i < length (textureDictionary s)" "textureDictionary s ! i = Some t"
    "tex_imageData (textures s t) = Some d" by blast
  with ok have sid: "tex_storeID (textures s t) = Some (int i)" unfolding registryOk_def by blast
  note at = purgeEntry_at [OF a sid, of n]
  have dl: "dictLookup s (Some i) = Some t" using a by (simp add: dictLookup_def)
  show ?thesis
    unfolding registryOk_def
  proof (intro allI impI)
    fix k u e
    assume h: "k < length (textureDictionary (purgeEntry n i s))
       \<and> textureDictionary (purgeEntry n i s) ! k = Some u
       \<and> tex_imageData (textures (purgeEntry n i s) u) = Some e"
    then have k: "k < length (textureDictionary s)" and ku: "textureDictionary s ! k = Some u"
      using purgeEntry_dict_mono [of k n i s u] by auto
    show "tex_storeID (textures (purgeEntry n i s) u) = Some (int k) \<and> e \<noteq> []"
    proof (cases "u = t")
      case True
      with k ku have "k = i" using registryOk_unique [OF ok a] by simp
      with True h at(1) at(2) a sid show ?thesis
        by (auto split: if_splits)
    next
      case False
      then have "textures (purgeEntry n i s) u = textures s u"
        using purgeEntry_textures_other [of s i u n] dl by simp
      with h k ku ok show ?thesis unfolding registryOk_def by auto
    qed
  qed
qed

lemma fold_dict_mono:
  "k < length (textureDictionary (fold (purgeEntry n) xs s)) \<Longrightarrow>
   textureDictionary (fold (purgeEntry n) xs s) ! k = Some u \<Longrightarrow>
   k < length (textureDictionary s) \<and> textureDictionary s ! k = Some u"
proof (induction xs arbitrary: s)
  case Nil
  then show ?case by simp
next
  case (Cons a xs)
  from Cons.IH [of "purgeEntry n a s"] Cons.prems
  have "k < length (textureDictionary (purgeEntry n a s))
        \<and> textureDictionary (purgeEntry n a s) ! k = Some u" by simp
  then show ?case using purgeEntry_dict_mono [of k n a s u] by simp
qed

lemma fold_registryOk:
  "registryOk s \<Longrightarrow> registryOk (fold (purgeEntry n) xs s)"
  by (induction xs arbitrary: s) (simp_all add: purgeEntry_registryOk)

lemma fold_length:
  "registryOk s \<Longrightarrow>
   length (textureDictionary (fold (purgeEntry n) xs s)) = length (textureDictionary s)"
  by (induction xs arbitrary: s) (simp_all add: purgeEntry_registryOk purgeEntry_length)

lemma fold_purgeable: "purgeable m (fold (purgeEntry n) xs s) j = purgeable m s j"
  by (induction xs arbitrary: s) (simp_all add: purgeEntry_purgeable)

lemma fold_images:
  "images (fold (purgeEntry n) xs s) j = images s j
   \<or> (purgeable n s j \<and> images (fold (purgeEntry n) xs s) j = (images s j)\<lparr>img_storeID := None\<rparr>)"
proof (induction xs arbitrary: s)
  case Nil
  then show ?case by simp
next
  case (Cons a xs)
  from Cons.IH [of "purgeEntry n a s"] purgeEntry_images [of n a s j]
  show ?case by (auto simp: purgeEntry_purgeable)
qed

lemma fold_storeID_None:
  "img_storeID (images s j) = None \<Longrightarrow> img_storeID (images (fold (purgeEntry n) xs s) j) = None"
  using fold_images [of n xs s j] by auto

lemma fold_textures_untouched:
  "(\<forall>k\<in>set xs. dictLookup s (Some k) \<noteq> Some u) \<Longrightarrow>
   textures (fold (purgeEntry n) xs s) u = textures s u"
proof (induction xs arbitrary: s)
  case Nil
  then show ?case by simp
next
  case (Cons a xs)
  have "\<forall>k\<in>set xs. dictLookup (purgeEntry n a s) (Some k) \<noteq> Some u"
  proof
    fix k assume k: "k \<in> set xs"
    show "dictLookup (purgeEntry n a s) (Some k) \<noteq> Some u"
    proof
      assume "dictLookup (purgeEntry n a s) (Some k) = Some u"
      then have "k < length (textureDictionary (purgeEntry n a s))
          \<and> textureDictionary (purgeEntry n a s) ! k = Some u"
        by (auto simp: dictLookup_def split: if_splits)
      then have "dictLookup s (Some k) = Some u"
        using purgeEntry_dict_mono [of k n a s u] by (simp add: dictLookup_def)
      with Cons.prems k show False by simp
    qed
  qed
  from Cons.IH [OF this] Cons.prems show ?case
    by (simp add: purgeEntry_textures_other)
qed

lemma fold_dict_untouched:
  "registryOk s \<Longrightarrow> k \<notin> set xs \<Longrightarrow>
   textureDictionary (fold (purgeEntry n) xs s) ! k = textureDictionary s ! k"
  by (induction xs arbitrary: s)
     (simp_all add: purgeEntry_registryOk purgeEntry_dict_other)

lemma fold_entry:
  assumes "registryOk s" "distinct xs" "i \<in> set xs" "i < length (textureDictionary s)"
    "textureDictionary s ! i = Some t" "tex_imageData (textures s t) = Some d"
  shows "textures (fold (purgeEntry n) xs s) t
         = (if filter (\<lambda>j. \<not> purgeable n s j) d = []
            then (textures s t)\<lparr>tex_imageData := None, tex_storeID := None,
                                 tex_frameBuffer := False, tex_deleted := True\<rparr>
            else (textures s t)\<lparr>tex_imageData := Some (filter (\<lambda>j. \<not> purgeable n s j) d)\<rparr>)
       \<and> textureDictionary (fold (purgeEntry n) xs s) ! i
         = (if filter (\<lambda>j. \<not> purgeable n s j) d = [] then None else Some t)
       \<and> (\<forall>j\<in>set d. purgeable n s j \<longrightarrow>
            img_storeID (images (fold (purgeEntry n) xs s) j) = None)"
  using assms
proof (induction xs arbitrary: s)
  case Nil
  then show ?case by simp
next
  case (Cons a xs)
  let ?s1 = "purgeEntry n a s"
  have ok1: "registryOk ?s1" using Cons.prems(1) by (rule purgeEntry_registryOk)
  have sid: "tex_storeID (textures s t) = Some (int i)"
    using Cons.prems unfolding registryOk_def by blast
  show ?case
  proof (cases "a = i")
    case True
    note at = purgeEntry_at [OF Cons.prems(4) Cons.prems(5) Cons.prems(6) sid, of n]
    have notin: "i \<notin> set xs" using Cons.prems(2) True by simp
    have un: "\<forall>k\<in>set xs. dictLookup ?s1 (Some k) \<noteq> Some t"
    proof
      fix k assume k: "k \<in> set xs"
      show "dictLookup ?s1 (Some k) \<noteq> Some t"
      proof
        assume "dictLookup ?s1 (Some k) = Some t"
        then have "k < length (textureDictionary ?s1) \<and> textureDictionary ?s1 ! k = Some t"
          by (auto simp: dictLookup_def split: if_splits)
        then have "k < length (textureDictionary s) \<and> textureDictionary s ! k = Some t"
          using purgeEntry_dict_mono [of k n a s t] by simp
        then have "k = i"
          using registryOk_unique [OF Cons.prems(1) Cons.prems(4) Cons.prems(5) Cons.prems(6)]
          by simp
        with k notin show False by simp
      qed
    qed
    have t1: "textures (fold (purgeEntry n) xs ?s1) t = textures ?s1 t"
      using fold_textures_untouched [OF un] .
    have d1: "textureDictionary (fold (purgeEntry n) xs ?s1) ! i = textureDictionary ?s1 ! i"
      using fold_dict_untouched [OF ok1 notin] .
    have i1: "\<forall>j\<in>set d. purgeable n s j \<longrightarrow>
            img_storeID (images (fold (purgeEntry n) xs ?s1) j) = None"
    proof (intro ballI impI)
      fix j assume "j \<in> set d" "purgeable n s j"
      then have "img_storeID (images ?s1 j) = None" using at(3) [of j] True by simp
      then show "img_storeID (images (fold (purgeEntry n) xs ?s1) j) = None"
        by (rule fold_storeID_None)
    qed
    show ?thesis using t1 d1 i1 at(1) at(2) True Cons.prems(4) Cons.prems(5) by simp
  next
    case False
    then have ixs: "i \<in> set xs" using Cons.prems(3) by simp
    have dxs: "distinct xs" using Cons.prems(2) by simp
    have len: "i < length (textureDictionary ?s1)"
      using purgeEntry_length [OF Cons.prems(1)] Cons.prems(4) by simp
    have di: "textureDictionary ?s1 ! i = Some t"
      using purgeEntry_dict_other [OF Cons.prems(1), of i a n] False Cons.prems(5) by simp
    have ne: "dictLookup s (Some a) \<noteq> Some t"
    proof
      assume "dictLookup s (Some a) = Some t"
      then have "a < length (textureDictionary s) \<and> textureDictionary s ! a = Some t"
        by (auto simp: dictLookup_def split: if_splits)
      then have "a = i"
        using registryOk_unique [OF Cons.prems(1) Cons.prems(4) Cons.prems(5) Cons.prems(6)]
        by simp
      with False show False by simp
    qed
    have tx: "textures ?s1 t = textures s t"
      using purgeEntry_textures_other [OF ne] .
    have dd: "tex_imageData (textures ?s1 t) = Some d" using tx Cons.prems(6) by simp
    from Cons.IH [OF ok1 dxs ixs len di dd]
    show ?thesis by (simp add: tx purgeEntry_purgeable)
  qed
qed

lemma purgeEntry_noop:
  assumes ok: "registryOk s"
    and fresh: "\<forall>t d. i < length (textureDictionary s) \<and> textureDictionary s ! i = Some t
               \<and> tex_imageData (textures s t) = Some d \<longrightarrow> (\<forall>j\<in>set d. \<not> purgeable n s j)"
  shows "purgeEntry n i s = s"
proof (cases "\<exists>t d. i < length (textureDictionary s) \<and> textureDictionary s ! i = Some t
                   \<and> tex_imageData (textures s t) = Some d")
  case False
  then show ?thesis by (simp add: purgeEntry_skip)
next
  case True
  then obtain t d where a: "i < length (textureDictionary s)" "textureDictionary s ! i = Some t"
    "tex_imageData (textures s t) = Some d" by blast
  with ok have ne: "d \<noteq> []" unfolding registryOk_def by blast
  from fresh a have np: "\<forall>j\<in>set d. \<not> purgeable n s j" by blast
  then have f: "filter (\<lambda>j. \<not> purgeable n s j) d = d" by (simp add: filter_id_conv)
  have dl: "dictLookup s (Some i) = Some t" using a by (simp add: dictLookup_def)
  have im: "(\<lambda>j. if j \<in> set d \<and> purgeable n s j
                   then (images s j)\<lparr>img_storeID := None\<rparr> else images s j) = images s"
    using np by (intro ext) auto
  have "(textures s t)\<lparr>tex_imageData := Some d\<rparr> = textures s t"
    using a(3) by (metis texture.surjective texture.update_convs(5))
  then have tx: "(textures s)(t := (textures s t)\<lparr>tex_imageData := Some d\<rparr>) = textures s"
    by simp
  show ?thesis using dl a(3) f ne
    by (simp add: purgeEntry_def Let_def im tx)
qed

lemma fold_noop:
  assumes ok: "registryOk s"
    and fresh: "\<forall>i t d. i < length (textureDictionary s) \<and> textureDictionary s ! i = Some t
               \<and> tex_imageData (textures s t) = Some d \<longrightarrow> (\<forall>j\<in>set d. \<not> purgeable n s j)"
  shows "fold (purgeEntry n) xs s = s"
proof (induction xs)
  case Nil
  then show ?case by simp
next
  case (Cons a xs)
  have "purgeEntry n a s = s" using purgeEntry_noop [OF ok] fresh by blast
  with Cons show ?case by simp
qed

lemma fold_untracked:
  "tex_imageData (textures s t) = None \<Longrightarrow> textures (fold (purgeEntry n) xs s) t = textures s t"
proof (induction xs arbitrary: s)
  case Nil
  then show ?case by simp
next
  case (Cons a xs)
  have "textures (purgeEntry n a s) t = textures s t"
  proof (cases "dictLookup s (Some a) = Some t")
    case True
    with Cons.prems show ?thesis by (simp add: purgeEntry_def)
  next
    case False
    then show ?thesis by (rule purgeEntry_textures_other)
  qed
  with Cons show ?case by simp
qed

lemma registered_mono:
  "registeredTextures (purgeTextures n s) \<subseteq> registeredTextures s"
proof
  fix t assume "t \<in> registeredTextures (purgeTextures n s)"
  then obtain k where "k < length (textureDictionary (purgeTextures n s))"
    "textureDictionary (purgeTextures n s) ! k = Some t"
    by (auto simp: registeredTextures_def in_set_conv_nth)
  then have "k < length (textureDictionary s) \<and> textureDictionary s ! k = Some t"
    unfolding purgeTextures_def by (rule fold_dict_mono)
  then show "t \<in> registeredTextures s"
    by (auto simp: registeredTextures_def in_set_conv_nth)
qed

text \<open>
  C7. \<^verbatim>\<open>purgeTextures(n)\<close> never registers a texture, so a second call only shrinks
  the set of registered textures further; it leaves alone every image that is not aged
  (\<^verbatim>\<open>_drawID + n <= this._drawID\<close>) and every texture that tracks no sources. On a
  registry in order it keeps the registry in order and, for every registered texture with
  sources, removes exactly the aged sources from its list and clears their
  \<^verbatim>\<open>_storeID\<close>; the texture is unregistered and deleted if and only if no source
  remains; and when no tracked source is aged the call changes nothing at all.
\<close>

theorem purgeTextures_spec:
  "registeredTextures (purgeTextures n s) \<subseteq> registeredTextures s
   \<and> registeredTextures (purgeTextures m (purgeTextures n s))
       \<subseteq> registeredTextures (purgeTextures n s)
   \<and> (\<forall>j. \<not> purgeable n s j \<longrightarrow> images (purgeTextures n s) j = images s j)
   \<and> (\<forall>t. tex_imageData (textures s t) = None \<longrightarrow>
          textures (purgeTextures n s) t = textures s t)
   \<and> (registryOk s \<longrightarrow>
        registryOk (purgeTextures n s)
        \<and> (\<forall>i t d. i < length (textureDictionary s) \<and> textureDictionary s ! i = Some t
                    \<and> tex_imageData (textures s t) = Some d \<longrightarrow>
             (let kept = filter (\<lambda>j. \<not> purgeable n s j) d in
                tex_imageData (textures (purgeTextures n s) t)
                  = (if kept = [] then None else Some kept)
                \<and> (\<forall>j\<in>set d. purgeable n s j \<longrightarrow>
                      img_storeID (images (purgeTextures n s) j) = None)
                \<and> textureDictionary (purgeTextures n s) ! i
                  = (if kept = [] then None else Some t)
                \<and> tex_deleted (textures (purgeTextures n s) t)
                  = (tex_deleted (textures s t) \<or> kept = [])))
        \<and> ((\<forall>i t d. i < length (textureDictionary s) \<and> textureDictionary s ! i = Some t
                     \<and> tex_imageData (textures s t) = Some d \<longrightarrow>
                     (\<forall>j\<in>set d. \<not> purgeable n s j))
             \<longrightarrow> purgeTextures n s = s))"
proof -
  have im: "\<forall>j. \<not> purgeable n s j \<longrightarrow> images (purgeTextures n s) j = images s j"
    using fold_images [of n "[0..<length (textureDictionary s)]" s]
    by (auto simp: purgeTextures_def)
  have un: "\<forall>t. tex_imageData (textures s t) = None \<longrightarrow>
          textures (purgeTextures n s) t = textures s t"
    by (simp add: purgeTextures_def fold_untracked)
  have ok: "registryOk s \<longrightarrow> registryOk (purgeTextures n s)"
    by (simp add: purgeTextures_def fold_registryOk)
  have ent: "registryOk s \<longrightarrow>
        (\<forall>i t d. i < length (textureDictionary s) \<and> textureDictionary s ! i = Some t
                    \<and> tex_imageData (textures s t) = Some d \<longrightarrow>
             (let kept = filter (\<lambda>j. \<not> purgeable n s j) d in
                tex_imageData (textures (purgeTextures n s) t)
                  = (if kept = [] then None else Some kept)
                \<and> (\<forall>j\<in>set d. purgeable n s j \<longrightarrow>
                      img_storeID (images (purgeTextures n s) j) = None)
                \<and> textureDictionary (purgeTextures n s) ! i
                  = (if kept = [] then None else Some t)
                \<and> tex_deleted (textures (purgeTextures n s) t)
                  = (tex_deleted (textures s t) \<or> kept = [])))"
  proof (intro impI allI)
    fix i t d
    assume r: "registryOk s"
      and a: "i < length (textureDictionary s) \<and> textureDictionary s ! i = Some t
                    \<and> tex_imageData (textures s t) = Some d"
    have "i \<in> set [0..<length (textureDictionary s)]" using a by simp
    from fold_entry [OF r _ this, of t d n] a
    show "let kept = filter (\<lambda>j. \<not> purgeable n s j) d in
                tex_imageData (textures (purgeTextures n s) t)
                  = (if kept = [] then None else Some kept)
                \<and> (\<forall>j\<in>set d. purgeable n s j \<longrightarrow>
                      img_storeID (images (purgeTextures n s) j) = None)
                \<and> textureDictionary (purgeTextures n s) ! i
                  = (if kept = [] then None else Some t)
                \<and> tex_deleted (textures (purgeTextures n s) t)
                  = (tex_deleted (textures s t) \<or> kept = [])"
      by (simp add: purgeTextures_def Let_def)
  qed
  have noop: "registryOk s \<longrightarrow>
        ((\<forall>i t d. i < length (textureDictionary s) \<and> textureDictionary s ! i = Some t
                     \<and> tex_imageData (textures s t) = Some d \<longrightarrow>
                     (\<forall>j\<in>set d. \<not> purgeable n s j))
             \<longrightarrow> purgeTextures n s = s)"
    using fold_noop [of s n] by (simp add: purgeTextures_def)
  show ?thesis
    using registered_mono [of n s] registered_mono [of m "purgeTextures n s"] im un ok ent noop
    by blast
qed

lemma registryOk_purgeSample: "registryOk purgeSample"
  by (auto simp: registryOk_def purgeSample_def sampleStage_def blankTexture_def
      less_Suc_eq nth_Cons' split: if_splits)

theorem purgeTextures_spec_witness:
  "tex_imageData (textures (purgeTextures 50 purgeSample) 1) = Some [11]
   \<and> img_storeID (images (purgeTextures 50 purgeSample) 10) = None
   \<and> textureDictionary (purgeTextures 50 purgeSample) ! 0 = Some 1
   \<and> \<not> tex_deleted (textures (purgeTextures 50 purgeSample) 1)
   \<and> textureDictionary (purgeTextures 50 purgeSample) ! 1 = None
   \<and> tex_deleted (textures (purgeTextures 50 purgeSample) 2)
   \<and> purgeTextures 200 purgeSample = purgeSample"
proof -
  have p: "purgeable 50 purgeSample 10" "\<not> purgeable 50 purgeSample 11"
    "purgeable 50 purgeSample 12"
    "\<not> purgeable 200 purgeSample 10" "\<not> purgeable 200 purgeSample 11"
    "\<not> purgeable 200 purgeSample 12"
    by (simp_all add: purgeable_def purgeSample_def sampleStage_def sampleImages_def)
  have e0: "0 < length (textureDictionary purgeSample) \<and> textureDictionary purgeSample ! 0 = Some 1
      \<and> tex_imageData (textures purgeSample 1) = Some [10, 11]"
    by (simp add: purgeSample_def sampleStage_def blankTexture_def)
  have e1: "1 < length (textureDictionary purgeSample) \<and> textureDictionary purgeSample ! 1 = Some 2
      \<and> tex_imageData (textures purgeSample 2) = Some [12]"
    by (simp add: purgeSample_def sampleStage_def blankTexture_def)
  have d: "\<not> tex_deleted (textures purgeSample 1)" "\<not> tex_deleted (textures purgeSample 2)"
    by (simp_all add: purgeSample_def sampleStage_def blankTexture_def)
  have fresh: "\<forall>i t d. i < length (textureDictionary purgeSample)
       \<and> textureDictionary purgeSample ! i = Some t
       \<and> tex_imageData (textures purgeSample t) = Some d \<longrightarrow>
       (\<forall>j\<in>set d. \<not> purgeable 200 purgeSample j)"
  proof (intro allI impI)
    fix i t d
    assume a: "i < length (textureDictionary purgeSample)
       \<and> textureDictionary purgeSample ! i = Some t
       \<and> tex_imageData (textures purgeSample t) = Some d"
    then have "i = 0 \<or> i = 1" by (auto simp: purgeSample_def sampleStage_def)
    then have "(t = 1 \<and> d = [10, 11]) \<or> (t = 2 \<and> d = [12])"
      using a e0 e1 by auto
    then show "\<forall>j\<in>set d. \<not> purgeable 200 purgeSample j" using p by auto
  qed
  from purgeTextures_spec [of 50 purgeSample 50] registryOk_purgeSample
  have k: "\<forall>i t d. i < length (textureDictionary purgeSample) \<and> textureDictionary purgeSample ! i = Some t
                    \<and> tex_imageData (textures purgeSample t) = Some d \<longrightarrow>
             (let kept = filter (\<lambda>j. \<not> purgeable 50 purgeSample j) d in
                tex_imageData (textures (purgeTextures 50 purgeSample) t)
                  = (if kept = [] then None else Some kept)
                \<and> (\<forall>j\<in>set d. purgeable 50 purgeSample j \<longrightarrow>
                      img_storeID (images (purgeTextures 50 purgeSample) j) = None)
                \<and> textureDictionary (purgeTextures 50 purgeSample) ! i
                  = (if kept = [] then None else Some t)
                \<and> tex_deleted (textures (purgeTextures 50 purgeSample) t)
                  = (tex_deleted (textures purgeSample t) \<or> kept = []))"
    by blast
  from purgeTextures_spec [of 200 purgeSample 200] registryOk_purgeSample fresh
  have n: "purgeTextures 200 purgeSample = purgeSample" by blast
  from k [rule_format, OF e0] k [rule_format, OF e1] n p d show ?thesis
    by (simp add: Let_def)
qed

subsection \<open>The two outcomes of a render mode update\<close>

lemma switchRenderMode_shape:
  assumes "bs n = Some sd" and "bs = builtShaders s"
  shows "switchRenderMode n sd s = s
         \<or> switchRenderMode n sd s = switched n sd bs s \<and> (sd_immediate sd \<longrightarrow> \<not> directDraw s)"
proof (cases "sd_immediate sd \<and> directDraw s")
  case True
  then show ?thesis by (simp add: switchRenderMode_def)
next
  case False
  have "switchRenderMode n sd s = switched n sd bs s"
  proof (cases "sd_immediate sd")
    case True
    with False have "switchRenderMode n sd s = (renderBatch (s\<lparr>activeConfig := MicroConfig, batchReason := ''shaderSwap''\<rparr>))\<lparr>renderMode := n, immediateRender := True\<rparr>"
      by (simp add: switchRenderMode_def Let_def)
    also have "\<dots> = switched n sd bs s"
      using True assms(2) by (simp add: switched_def)
    finally show ?thesis .
  next
    case f: False
    then have "switchRenderMode n sd s = (renderBatch (s\<lparr>batchReason := ''shaderSwap''\<rparr>))\<lparr>renderMode := n, immediateRender := False\<rparr>"
      by (simp add: switchRenderMode_def Let_def)
    also have "\<dots> = switched n sd bs s"
      using f assms(2) by (simp add: switched_def)
    finally show ?thesis .
  qed
  with False show ?thesis by auto
qed

lemma updateRenderMode_shape:
  "(\<exists>bs. updateRenderMode h m s = s\<lparr>builtShaders := bs\<rparr> \<and> keepsShaders s bs)
   \<or> (\<exists>n sd bs. updateRenderMode h m s = switched n sd bs s \<and> n \<noteq> renderMode s
         \<and> bs n = Some sd \<and> (sd_immediate sd \<longrightarrow> \<not> directDraw s) \<and> keepsShaders s bs)"
proof -
  define asked where "asked = (case m of None \<Rightarrow> ''source-over'' | Some m \<Rightarrow> m)"
  define n where "n = (case blendSources h asked of None \<Rightarrow> ''source-over'' | Some b \<Rightarrow> asked)"
  have same: "s\<lparr>builtShaders := builtShaders s\<rparr> = s" by simp
  have keep: "keepsShaders s (builtShaders s)" by (simp add: keepsShaders_def)
  have stay: "\<exists>bs. s = s\<lparr>builtShaders := bs\<rparr> \<and> keepsShaders s bs"
    using same keep by metis
  have u: "updateRenderMode h m s =
     (if renderMode s = n then s
      else
        (case builtShaders s n of
           Some sd \<Rightarrow> switchRenderMode n sd s
         | None \<Rightarrow>
            (case blendSources h n of
               None \<Rightarrow> s\<lparr>builtShaders := (builtShaders s)(n := None)\<rparr>
             | Some b \<Rightarrow>
                 if truthy (bs_shader b) \<or> builtShaders s ''source-over'' = None
                 then
                   (if coverShaderLinks h n
                    then
                      switchRenderMode n \<lparr>sd_immediate = (bs_shader b \<noteq> None), sd_shader = CoverShader n\<rparr>
                            (s\<lparr>builtShaders := (builtShaders s)(n \<mapsto> \<lparr>sd_immediate = (bs_shader b \<noteq> None), sd_shader = CoverShader n\<rparr>)\<rparr>)
                    else s\<lparr>builtShaders := (builtShaders s)(n := None)\<rparr>)
                 else
                   switchRenderMode n \<lparr>sd_immediate = False,
                              sd_shader = (case builtShaders s ''source-over'' of
                                             Some so \<Rightarrow> sd_shader so | None \<Rightarrow> NoShader)\<rparr>
                         (s\<lparr>builtShaders := (builtShaders s)(n \<mapsto> \<lparr>sd_immediate = False,
                              sd_shader = (case builtShaders s ''source-over'' of
                                             Some so \<Rightarrow> sd_shader so | None \<Rightarrow> NoShader)\<rparr>)\<rparr>))))"
    unfolding updateRenderMode_def Let_def asked_def n_def by (rule refl)
  show ?thesis
  proof (cases "renderMode s = n")
    case True
    then have "updateRenderMode h m s = s" by (simp add: u)
    with stay show ?thesis by metis
  next
    case diff: False
    show ?thesis
    proof (cases "builtShaders s n")
      case (Some sd)
      with diff have u1: "updateRenderMode h m s = switchRenderMode n sd s"
        by (simp add: u)
      from switchRenderMode_shape [OF Some refl] u1 diff Some keep stay show ?thesis
        by metis
    next
      case None
      have k: "\<And>v. keepsShaders s ((builtShaders s)(n := v))"
        using None by (simp add: keepsShaders_def)
      have fail: ?thesis
        if "updateRenderMode h m s = s\<lparr>builtShaders := (builtShaders s)(n := None)\<rparr>"
        using that k by blast
      have build: ?thesis
        if u2: "updateRenderMode h m s
            = switchRenderMode n sd (s\<lparr>builtShaders := (builtShaders s)(n \<mapsto> sd)\<rparr>)" for sd
      proof -
        let ?s1 = "s\<lparr>builtShaders := (builtShaders s)(n \<mapsto> sd)\<rparr>"
        let ?bs = "(builtShaders s)(n \<mapsto> sd)"
        have b: "?bs n = Some sd" by simp
        have "?bs = builtShaders ?s1" by simp
        from switchRenderMode_shape [OF b this]
        have "switchRenderMode n sd ?s1 = ?s1
           \<or> switchRenderMode n sd ?s1 = switched n sd ?bs ?s1 \<and> (sd_immediate sd \<longrightarrow> \<not> directDraw s)"
          by simp
        moreover have "switched n sd ?bs ?s1 = switched n sd ?bs s"
          by (simp add: switched_def)
        ultimately show ?thesis using u2 k diff b by metis
      qed
      show ?thesis
      proof (cases "blendSources h n")
        case bn: None
        with diff None have "updateRenderMode h m s = s\<lparr>builtShaders := (builtShaders s)(n := None)\<rparr>"
          by (simp add: u)
        then show ?thesis by (rule fail)
      next
        case (Some b)
        show ?thesis
        proof (cases "truthy (bs_shader b) \<or> builtShaders s ''source-over'' = None")
          case True
          show ?thesis
          proof (cases "coverShaderLinks h n")
            case l: True
            with True Some diff None have "updateRenderMode h m s =
               switchRenderMode n \<lparr>sd_immediate = (bs_shader b \<noteq> None), sd_shader = CoverShader n\<rparr>
                 (s\<lparr>builtShaders := (builtShaders s)
                      (n \<mapsto> \<lparr>sd_immediate = (bs_shader b \<noteq> None), sd_shader = CoverShader n\<rparr>)\<rparr>)"
              by (simp add: u)
            then show ?thesis by (rule build)
          next
            case l: False
            with True Some diff None
            have "updateRenderMode h m s = s\<lparr>builtShaders := (builtShaders s)(n := None)\<rparr>"
              by (simp add: u)
            then show ?thesis by (rule fail)
          qed
        next
          case False
          define sd where "sd = \<lparr>sd_immediate = False,
                 sd_shader = (case builtShaders s ''source-over'' of
                                Some so \<Rightarrow> sd_shader so | None \<Rightarrow> NoShader)\<rparr>"
          from False Some diff None have "updateRenderMode h m s =
               switchRenderMode n sd (s\<lparr>builtShaders := (builtShaders s)(n \<mapsto> sd)\<rparr>)"
            by (auto simp: u sd_def)
          then show ?thesis by (rule build)
        qed
      qed
    qed
  qed
qed

subsection \<open>The texture operations leave the batch alone or flush it\<close>

lemma sameBatch_refl [simp]: "sameBatch s s"
  by (simp add: sameBatch_def)

lemma sameBatch_trans: "sameBatch a b \<Longrightarrow> sameBatch b c \<Longrightarrow> sameBatch a c"
  by (simp add: sameBatch_def)

lemma refreshTexture_sameBatch: "refreshTexture t s = Inr s' \<Longrightarrow> sameBatch s s'"
  using refreshTexture_shape [of t s s'] by (auto simp: sameBatch_def)

lemma insertTextureInBatch_sameBatch:
  assumes "insertTextureInBatch t s = Inr s'"
  shows "sameBatch s s' \<or> sameBatch (flushed ''textureOverflow'' s) s'"
proof (cases "occupiesRecordedSlot s t")
  case True
  show ?thesis
  proof (cases "tex_drawID (textures s t) \<noteq> Some (drawID s)")
    case True
    with \<open>occupiesRecordedSlot s t\<close> assms obtain s2 where r: "refreshTexture t s = Inr s2"
      and s': "s' = stampTexture t s2"
      by (auto simp: insertTextureInBatch_def split: sum.splits)
    from refreshTexture_sameBatch [OF r] s' show ?thesis
      by (simp add: sameBatch_def stampTexture_def)
  next
    case False
    with True assms have "s' = stampTexture t s" by (simp add: insertTextureInBatch_def)
    then show ?thesis by (simp add: sameBatch_def stampTexture_def)
  qed
next
  case False
  with assms have c: "batchTextureCount s \<noteq> 0"
    by (auto simp: insertTextureInBatch_def split: if_splits)
  from False assms c obtain r where sc: "slotScan s (slotStart s) (slotStart s) = Inr r"
    by (auto simp: insertTextureInBatch_def split: sum.splits)
  show ?thesis
  proof (cases r)
    case None
    with False assms c sc obtain s2 where
      r2: "refreshTexture t (setSlot t (slotStart s) (flushed ''textureOverflow'' s)) = Inr s2"
      and s': "s' = stampTexture t (s2\<lparr>lastTextureInsert := int (slotStart s)\<rparr>)"
      by (auto simp: insertTextureInBatch_def Let_def flushed_def split: sum.splits)
    from refreshTexture_sameBatch [OF r2] s'
    have "sameBatch (flushed ''textureOverflow'' s) s'"
      by (simp add: sameBatch_def stampTexture_def setSlot_def)
    then show ?thesis by simp
  next
    case (Some k)
    with False assms c sc obtain s2 where
      r2: "refreshTexture t (setSlot t k s) = Inr s2"
      and s': "s' = stampTexture t (s2\<lparr>lastTextureInsert := int k\<rparr>)"
      by (auto simp: insertTextureInBatch_def Let_def split: sum.splits)
    from refreshTexture_sameBatch [OF r2] s'
    have "sameBatch s s'"
      by (simp add: sameBatch_def stampTexture_def setSlot_def)
    then show ?thesis by simp
  qed
qed

lemma getSafeTexture_sameBatch: "getSafeTexture h s = Inr (t, s') \<Longrightarrow> sameBatch s s'"
  by (auto simp: getSafeTexture_def getBaseTexture_def sameBatch_def split: if_splits)

lemma trackImage_sameBatch: "sameBatch s (trackImage i k t s)"
  by (simp add: trackImage_def sameBatch_def)

lemma sameBatch_flushed:
  "sameBatch a b \<Longrightarrow> sameBatch (flushed r a) (flushed r b)"
  by (simp add: sameBatch_def flushed_def renderBatch_def activeArray_def split: config.splits)

lemma sameBatch_then:
  assumes "sameBatch a b" and "sameBatch b c \<or> sameBatch (flushed r b) c"
  shows "sameBatch a c \<or> sameBatch (flushed r a) c"
  using assms sameBatch_trans sameBatch_flushed by blast

lemma registerImage_sameBatch:
  assumes "registerImage h i path s = Inr (r, s')"
  shows "sameBatch s s' \<or> sameBatch (flushed ''textureOverflow'' s) s'"
proof (cases "textureIDs s path")
  case None
  define s1 where "s1 = s\<lparr>textureIDs := (textureIDs s)(path \<mapsto> length (textureDictionary s)),
                      images := (images s)
                        (i := (images s i)\<lparr>img_storeID := Some (length (textureDictionary s)), img_invalid := Some True\<rparr>)\<rparr>"
  from None assms obtain t s2 where g: "getSafeTexture h s1 = Inr (t, s2)"
    by (auto simp: registerImage_def Let_def s1_def split: sum.splits)
  define s3 where "s3 = trackImage i (length (textureDictionary s)) t
      (s2\<lparr>textureDictionary := arraySet (textureDictionary s2) (length (textureDictionary s)) (Some t)\<rparr>)"
  from None assms g have ins: "insertTextureInBatch t s3 = Inr s'"
    by (auto simp: registerImage_def Let_def s1_def s3_def split: sum.splits)
  have "sameBatch s s1" by (simp add: s1_def sameBatch_def)
  moreover have "sameBatch s1 s2" by (rule getSafeTexture_sameBatch [OF g])
  moreover have "sameBatch s2 s3"
    unfolding s3_def by (rule sameBatch_trans [OF _ trackImage_sameBatch]) (simp add: sameBatch_def)
  ultimately have "sameBatch s s3" by (blast intro: sameBatch_trans)
  from sameBatch_then [OF this insertTextureInBatch_sameBatch [OF ins]] show ?thesis .
next
  case (Some k)
  define s1 where "s1 = s\<lparr>images := (images s)(i := (images s i)\<lparr>img_storeID := Some k\<rparr>)\<rparr>"
  from Some assms obtain t where "insertTextureInBatch t (trackImage i k t s1) = Inr s'"
    by (auto simp: registerImage_def Let_def s1_def split: sum.splits option.splits)
  note ins = insertTextureInBatch_sameBatch [OF this]
  have "sameBatch s s1" by (simp add: s1_def sameBatch_def)
  then have "sameBatch s (trackImage i k t s1)"
    by (rule sameBatch_trans) (rule trackImage_sameBatch)
  from sameBatch_then [OF this ins] show ?thesis .
qed

lemma loadTextureImage_sameBatch:
  assumes "loadTextureImage h i s = Inr (r, s')"
  shows "sameBatch s s' \<or> sameBatch (flushed ''textureOverflow'' s) s'"
proof (cases "img_kind (images s i)")
  case (ImageElement src)
  show ?thesis
  proof (cases "src = []")
    case True
    with ImageElement assms show ?thesis by (simp add: loadTextureImage_def)
  next
    case False
    with ImageElement assms have "registerImage h i (SrcUrl src) s = Inr (r, s')"
      by (simp add: loadTextureImage_def)
    then show ?thesis by (rule registerImage_sameBatch)
  qed
next
  case CanvasElement
  define s1 where "s1 = s\<lparr>images := (images s)(i := (images s i)\<lparr>img_isCanvas := True\<rparr>),
               lastTrackedCanvas := lastTrackedCanvas s + 1\<rparr>"
  from CanvasElement assms have "registerImage h i (CanvasKey (lastTrackedCanvas s + 1)) s1 = Inr (r, s')"
    by (simp add: loadTextureImage_def s1_def)
  note reg = registerImage_sameBatch [OF this]
  have "sameBatch s s1" by (simp add: s1_def sameBatch_def)
  from sameBatch_then [OF this reg] show ?thesis .
next
  case InvalidSource
  with assms show ?thesis by (simp add: loadTextureImage_def)
qed

lemma resolveTexture_sameBatch:
  assumes "resolveTexture h i s = Inr (r, s')"
  shows "sameBatch (noted (ResolveTexture i) s) s'
         \<or> sameBatch (flushed ''textureOverflow'' (noted (ResolveTexture i) s)) s'"
proof (cases "img_storeID (images s i)")
  case None
  with assms have "loadTextureImage h i (noted (ResolveTexture i) s) = Inr (r, s')"
    by (auto simp: resolveTexture_def noted_def split: sum.splits option.splits)
  then show ?thesis by (rule loadTextureImage_sameBatch)
next
  case (Some sid)
  show ?thesis
  proof (cases "dictLookup (noted (ResolveTexture i) s) (Some sid)")
    case None
    with Some assms show ?thesis by (auto simp: resolveTexture_def noted_def)
  next
    case t: (Some t)
    show ?thesis
    proof (cases "tex_batchID (textures s t) \<noteq> Some (batchID s)")
      case True
      with Some t assms have "insertTextureInBatch t (noted (ResolveTexture i) s) = Inr s'"
        by (auto simp: resolveTexture_def noted_def split: sum.splits)
      then show ?thesis by (rule insertTextureInBatch_sameBatch)
    next
      case False
      with Some t assms show ?thesis by (auto simp: resolveTexture_def noted_def)
    qed
  qed
qed

subsection \<open>Invariants of the traversal\<close>

lemma appendCard_parts:
  "appendCard h item uc m a s =
     (case cardImage item uc of
        None \<Rightarrow> Inr (cardStart h item s)
      | Some i \<Rightarrow>
          (case resolveTexture h i (cardStart h item s) of
             Inl e \<Rightarrow> Inl e
           | Inr (None, s3) \<Rightarrow> Inr s3
           | Inr (Some t, s3) \<Rightarrow> cardFinish h item uc m a (renderMode s) i t s3))"
  by (simp add: appendCard_def cardStart_def cardFinish_def Let_def flushed_def
      split: option.splits sum.splits)

lemma getBaseTexture_sameBatch: "getBaseTexture h s = Inr (t, s') \<Longrightarrow> sameBatch s s'"
  by (auto simp: getBaseTexture_def sameBatch_def split: if_splits)

lemma getRenderBufferTexture_sameBatch:
  assumes "getRenderBufferTexture h w hh s = Inr (r, s')"
  shows "sameBatch s s'"
proof (cases "getBaseTexture h s")
  case (Inl e)
  with assms show ?thesis
    by (simp add: getRenderBufferTexture_def Let_def split: sum.splits)
next
  case (Inr p)
  obtain t s1 where p: "p = (t, s1)" by (cases p)
  from Inr p have sb: "sameBatch s s1" by (simp add: getBaseTexture_sameBatch)
  from assms Inr p have "s' = s1 \<or> s' = s1\<lparr>textures := (textures s1)
                                 (t := (textures s1 t)
                                    \<lparr>tex_frameBuffer := True,
                                     tex_storeID := Some (int (length (textureDictionary s1)))\<rparr>),
                               textureDictionary := textureDictionary s1 @ [Some t]\<rparr>"
    by (auto simp: getRenderBufferTexture_def Let_def split: sum.splits if_splits)
  then have "sameBatch s1 s'" by (auto simp: sameBatch_def)
  with sb show ?thesis by (rule sameBatch_trans)
qed

lemma acquireBuffer_sameBatch:
  assumes "acquireBuffer h c a = Inr (r, b)"
  shows "sameBatch a b"
proof (cases c)
  case None
  show ?thesis
  proof (cases "getRenderBufferTexture h (viewportWidth a) (viewportHeight a) a")
    case (Inl e)
    with None assms show ?thesis by (simp add: acquireBuffer_def)
  next
    case (Inr p)
    obtain r1 s1 where p: "p = (r1, s1)" by (cases p)
    with None assms Inr have "b = s1" by (simp add: acquireBuffer_def)
    with Inr p show ?thesis using getRenderBufferTexture_sameBatch by blast
  qed
next
  case (Some tg)
  with assms have "b = a" by (cases tg) (simp_all add: acquireBuffer_def)
  then show ?thesis by simp
qed

lemma immediateBatchRender_unfold:
  assumes a1: "acquireBuffer h (batchTextureConcat s) s = Inr (cc, s1)"
    and a2: "acquireBuffer h (batchTextureTemp s1) (s1\<lparr>batchTextureConcat := cc\<rparr>) = Inr (tmp, s2)"
  shows "immediateBatchRender h s =
       (if tmp = None then Inl TypeError
        else if batchTextureOutput (renderBatch (s2\<lparr>batchTextureTemp := tmp,
                    batchTextureOutput := batchTextureConcat s2,
                    batchTextureConcat := batchTextureOutput s2, activeShader := MainShader,
                    batchReason := ''immediatePrep''\<rparr>)) = None then Inl TypeError
        else drawCover ((renderBatch (s2\<lparr>batchTextureTemp := tmp,
                    batchTextureOutput := batchTextureConcat s2,
                    batchTextureConcat := batchTextureOutput s2, activeShader := MainShader,
                    batchReason := ''immediatePrep''\<rparr>))\<lparr>batchReason := ''immediateResults''\<rparr>))"
  unfolding immediateBatchRender_def a1 sum.case prod.case a2 Let_def
  by simp

lemma drawCover_shape:
  assumes "drawCover s = Inr s'"
  shows "\<exists>sd :: shaderData. s' = renderCover (s\<lparr>activeShader := sd_shader sd\<rparr>)"
proof (cases "builtShaders s (renderMode s)")
  case None
  with assms show ?thesis by (simp add: drawCover_def)
next
  case (Some sd)
  with assms have "s' = renderCover (s\<lparr>activeShader := sd_shader sd\<rparr>)"
    by (simp add: drawCover_def)
  then show ?thesis by (rule exI [where x = sd])
qed

lemma immediateBatchRender_shape:
  assumes "immediateBatchRender h s = Inr s'"
  shows "\<exists>s4 (sd :: shaderData). sameBatch s s4
          \<and> s' = renderCover ((flushed ''immediatePrep'' (s4\<lparr>activeShader := MainShader\<rparr>))
                    \<lparr>batchReason := ''immediateResults'', activeShader := sd_shader sd\<rparr>)"
proof (cases "acquireBuffer h (batchTextureConcat s) s")
  case (Inl e)
  with assms show ?thesis by (simp add: immediateBatchRender_def)
next
  case (Inr p1)
  obtain cc s1 where "p1 = (cc, s1)" by (cases p1)
  with Inr have a1: "acquireBuffer h (batchTextureConcat s) s = Inr (cc, s1)" by simp
  show ?thesis
  proof (cases "acquireBuffer h (batchTextureTemp s1) (s1\<lparr>batchTextureConcat := cc\<rparr>)")
    case (Inl e)
    with assms a1 show ?thesis by (simp add: immediateBatchRender_def)
  next
    case (Inr p2)
    obtain tmp s2 where "p2 = (tmp, s2)" by (cases p2)
    with Inr have a2: "acquireBuffer h (batchTextureTemp s1) (s1\<lparr>batchTextureConcat := cc\<rparr>)
                         = Inr (tmp, s2)" by simp
    define s4 where "s4 = s2\<lparr>batchTextureTemp := tmp, batchTextureOutput := batchTextureConcat s2,
                               batchTextureConcat := batchTextureOutput s2\<rparr>"
    define s5 where "s5 = flushed ''immediatePrep'' (s4\<lparr>activeShader := MainShader\<rparr>)"
    have s5: "s5 = renderBatch (s2\<lparr>batchTextureTemp := tmp,
                    batchTextureOutput := batchTextureConcat s2,
                    batchTextureConcat := batchTextureOutput s2, activeShader := MainShader,
                    batchReason := ''immediatePrep''\<rparr>)"
      by (simp add: s5_def s4_def flushed_def)
    have "immediateBatchRender h s =
       (if tmp = None then Inl TypeError
        else if batchTextureOutput s5 = None then Inl TypeError
        else drawCover (s5\<lparr>batchReason := ''immediateResults''\<rparr>))"
      unfolding s5 by (rule immediateBatchRender_unfold [OF a1 a2])
    with assms have "drawCover (s5\<lparr>batchReason := ''immediateResults''\<rparr>) = Inr s'"
      by (simp split: if_splits)
    from drawCover_shape [OF this] obtain sd :: shaderData where
      sd: "s' = renderCover (s5\<lparr>batchReason := ''immediateResults'', activeShader := sd_shader sd\<rparr>)"
      by auto
    have b1: "sameBatch s s1" using a1 by (rule acquireBuffer_sameBatch)
    have b2: "sameBatch s1 (s1\<lparr>batchTextureConcat := cc\<rparr>)" by (simp add: sameBatch_def)
    have b3: "sameBatch (s1\<lparr>batchTextureConcat := cc\<rparr>) s2" using a2 by (rule acquireBuffer_sameBatch)
    have b4: "sameBatch s2 s4" by (simp add: sameBatch_def s4_def)
    have sb: "sameBatch s s4"
      by (rule sameBatch_trans [OF b1 sameBatch_trans [OF b2 sameBatch_trans [OF b3 b4]]])
    have "sameBatch s s4
          \<and> s' = renderCover ((flushed ''immediatePrep'' (s4\<lparr>activeShader := MainShader\<rparr>))
                    \<lparr>batchReason := ''immediateResults'', activeShader := sd_shader sd\<rparr>)"
      using sb sd unfolding s5_def by simp
    then show ?thesis by (intro exI [where x = s4] exI [where x = sd])
  qed
qed

lemma cardVerticesOf_length: "length (cardVerticesOf item uc w hh mt ti al) = INDICIES_PER_CARD"
  by (simp add: cardVerticesOf_def cardVertices_def INDICIES_PER_CARD_def split: prod.splits)

lemma cardStart_invariant:
  assumes mode: "\<And>m s. P s \<Longrightarrow> P (updateRenderMode h m s)"
    and over: "\<And>s. P s \<Longrightarrow> maxBatchVertexCount s < batchVertexCount s + INDICIES_PER_CARD
                 \<Longrightarrow> P (flushed ''vertexOverflow'' s)"
    and p: "P s"
  shows "P (cardStart h item s)"
  using p mode over by (simp add: cardStart_def Let_def)

lemma cardStart_room:
  "INDICIES_PER_CARD \<le> maxBatchVertexCount (cardStart h item s)
   \<Longrightarrow> batchVertexCount (cardStart h item s) + INDICIES_PER_CARD
          \<le> maxBatchVertexCount (cardStart h item s)"
  by (auto simp: cardStart_def Let_def flushed_def renderBatch_def split: if_splits)

lemma resolveTexture_invariant:
  assumes res: "\<And>i s. P s \<Longrightarrow> P (noted (ResolveTexture i) s)"
    and tex: "\<And>s. P s \<Longrightarrow> P (flushed ''textureOverflow'' s)"
    and same: "\<And>s s'. P s \<Longrightarrow> sameBatch s s' \<Longrightarrow> P s'"
    and p: "P s" and r: "resolveTexture h i s = Inr (rt, s')"
  shows "P s'"
  using resolveTexture_sameBatch [OF r] res [OF p, of i] tex same by blast

lemma resolveTexture_room:
  assumes "resolveTexture h i s = Inr (rt, s')"
    and "INDICIES_PER_CARD \<le> maxBatchVertexCount s
          \<longrightarrow> batchVertexCount s + INDICIES_PER_CARD \<le> maxBatchVertexCount s"
  shows "INDICIES_PER_CARD \<le> maxBatchVertexCount s'
          \<longrightarrow> batchVertexCount s' + INDICIES_PER_CARD \<le> maxBatchVertexCount s'"
  using resolveTexture_sameBatch [OF assms(1)] assms(2)
  by (auto simp: sameBatch_def noted_def flushed_def renderBatch_def split: if_splits)

lemma cardFinish_invariant:
  assumes mode: "\<And>m s. P s \<Longrightarrow> P (updateRenderMode h m s)"
    and same: "\<And>s s'. P s \<Longrightarrow> sameBatch s s' \<Longrightarrow> P s'"
    and wr: "\<And>vs s. P s \<Longrightarrow> length vs = INDICIES_PER_CARD
                 \<Longrightarrow> (INDICIES_PER_CARD \<le> maxBatchVertexCount s
                        \<longrightarrow> batchVertexCount s + INDICIES_PER_CARD \<le> maxBatchVertexCount s)
                 \<Longrightarrow> P (writeCard vs s)"
    and imm: "\<And>s s'. P s \<Longrightarrow> immediateRender s
                 \<Longrightarrow> immediateBatchRender h (s\<lparr>activeConfig := DefaultConfig\<rparr>) = Inr s' \<Longrightarrow> P s'"
    and p: "P s"
    and room: "INDICIES_PER_CARD \<le> maxBatchVertexCount s
                \<longrightarrow> batchVertexCount s + INDICIES_PER_CARD \<le> maxBatchVertexCount s"
    and r: "cardFinish h item uc m a crm i t s = Inr s'"
  shows "P s'"
proof -
  define s4 where "s4 = s\<lparr>images := (images s)(i := (images s i)\<lparr>img_drawID := Some (drawID s)\<rparr>)\<rparr>"
  define vs where "vs = cardVerticesOf item uc (img_width (images s4 i))
                          (img_height (images s4 i)) (appendMatrix m (localMatrix (propsOf item)))
                          (tex_activeIndex (textures s t)) (jsMul (alpha (propsOf item)) a)"
  define s5 where "s5 = writeCard vs s4"
  have "sameBatch s s4" by (simp add: s4_def sameBatch_def)
  then have p4: "P s4" using p same by blast
  have "INDICIES_PER_CARD \<le> maxBatchVertexCount s4
           \<longrightarrow> batchVertexCount s4 + INDICIES_PER_CARD \<le> maxBatchVertexCount s4"
    using room by (simp add: s4_def)
  then have p5: "P s5"
    unfolding s5_def using p4 by (intro wr) (simp_all add: vs_def cardVerticesOf_length)
  from r have "(case (if immediateRender s5
               then immediateBatchRender h (s5\<lparr>activeConfig := DefaultConfig\<rparr>)
               else Inr s5) of
           Inl e \<Rightarrow> Inl e
         | Inr s6 \<Rightarrow> Inr (if renderMode s6 \<noteq> crm then updateRenderMode h (Some crm) s6 else s6))
         = Inr s'"
    unfolding cardFinish_def Let_def s5_def vs_def s4_def .
  then obtain s6 where
    i6: "(if immediateRender s5 then immediateBatchRender h (s5\<lparr>activeConfig := DefaultConfig\<rparr>)
          else Inr s5) = Inr s6"
    and s': "s' = (if renderMode s6 \<noteq> crm then updateRenderMode h (Some crm) s6 else s6)"
    by (auto split: sum.splits)
  have p6: "P s6" using i6 p5 imm by (auto split: if_splits)
  show ?thesis using p6 mode by (simp add: s')
qed

lemma appendCard_invariant:
  assumes mode: "\<And>m s. P s \<Longrightarrow> P (updateRenderMode h m s)"
    and over: "\<And>s. P s \<Longrightarrow> maxBatchVertexCount s < batchVertexCount s + INDICIES_PER_CARD
                 \<Longrightarrow> P (flushed ''vertexOverflow'' s)"
    and res: "\<And>i s. P s \<Longrightarrow> P (noted (ResolveTexture i) s)"
    and tex: "\<And>s. P s \<Longrightarrow> P (flushed ''textureOverflow'' s)"
    and same: "\<And>s s'. P s \<Longrightarrow> sameBatch s s' \<Longrightarrow> P s'"
    and wr: "\<And>vs s. P s \<Longrightarrow> length vs = INDICIES_PER_CARD
                 \<Longrightarrow> (INDICIES_PER_CARD \<le> maxBatchVertexCount s
                        \<longrightarrow> batchVertexCount s + INDICIES_PER_CARD \<le> maxBatchVertexCount s)
                 \<Longrightarrow> P (writeCard vs s)"
    and imm: "\<And>s s'. P s \<Longrightarrow> immediateRender s
                 \<Longrightarrow> immediateBatchRender h (s\<lparr>activeConfig := DefaultConfig\<rparr>) = Inr s' \<Longrightarrow> P s'"
    and p: "P s" and r: "appendCard h item uc m a s = Inr s'"
  shows "P s'"
proof -
  have p2: "P (cardStart h item s)"
    using mode over p by (rule cardStart_invariant)
  show ?thesis
  proof (cases "cardImage item uc")
    case None
    with r p2 show ?thesis by (simp add: appendCard_parts)
  next
    case (Some i)
    with r obtain rt s3 where rs: "resolveTexture h i (cardStart h item s) = Inr (rt, s3)"
      by (auto simp: appendCard_parts split: sum.splits)
    have p3: "P s3" using res tex same p2 rs by (rule resolveTexture_invariant)
    have room3: "INDICIES_PER_CARD \<le> maxBatchVertexCount s3
               \<longrightarrow> batchVertexCount s3 + INDICIES_PER_CARD \<le> maxBatchVertexCount s3"
      using resolveTexture_room [OF rs] cardStart_room by blast
    show ?thesis
    proof (cases rt)
      case None
      with r Some rs p3 show ?thesis by (simp add: appendCard_parts)
    next
      case t: (Some t)
      with r Some rs have "cardFinish h item uc m a (renderMode s) i t s3 = Inr s'"
        by (simp add: appendCard_parts)
      with mode same wr imm p3 room3 show ?thesis by (rule cardFinish_invariant)
    qed
  qed
qed

subsection \<open>Induction over the display list\<close>

lemma appendToBatch_Container:
  "appendToBatch h (Container p cs) m a ic s =
     (case appendChildren h cs (appendMatrix m (localMatrix p)) a ic (enterMode h p s) of
        Inl e \<Rightarrow> Inl e
      | Inr s2 \<Rightarrow> Inr (restoreMode h (renderMode s) s2))"
  by (simp add: enterMode_def restoreMode_def Let_def split: sum.splits)

lemma appendItem_cases:
  "appendItem h item m a ic s =
     (if \<not> (visible (propsOf item) \<and> jsGreater a alphaThreshold) then Inr s
      else if (if ic then None else cache (propsOf item)) = None \<and> hasChildren item
      then appendToBatch h item m (jsMul (alpha (propsOf item)) a) False s
      else appendCard h item (if ic then None else cache (propsOf item)) m a s)"
  by (simp add: Let_def)

lemma traversal_kept:
  shows "keptByCards h P \<longrightarrow> (\<forall>s'. P s \<longrightarrow> appendToBatch h c mt a ic s = Inr s' \<longrightarrow> P s')"
    and "keptByCards h P \<longrightarrow> (\<forall>s'. P s \<longrightarrow> appendChildren h cs mt a ic s = Inr s' \<longrightarrow> P s')"
    and "keptByCards h P \<longrightarrow> (\<forall>s'. P s \<longrightarrow> appendItem h it mt a ic s = Inr s' \<longrightarrow> P s')"
proof (induction h c mt a ic s and h cs mt a ic s and h it mt a ic s
       rule: appendToBatch_appendChildren_appendItem.induct)
  case (1 h p cs concatMtx concatAlpha ignoreCache s)
  note ih = "1.IH" [OF refl refl refl, folded enterMode_def]
  show ?case
  proof (intro allI impI)
    fix s' assume k: "keptByCards h P" and p: "P s"
      and r: "appendToBatch h (Container p cs) concatMtx concatAlpha ignoreCache s = Inr s'"
    have mode: "\<And>m s. P s \<Longrightarrow> P (updateRenderMode h m s)"
      using k by (simp add: keptByCards_def)
    have p1: "P (enterMode h p s)" using p mode by (simp add: enterMode_def)
    from r obtain s2 where
      c: "appendChildren h cs (appendMatrix concatMtx (localMatrix p)) concatAlpha ignoreCache
            (enterMode h p s) = Inr s2"
      and s': "s' = restoreMode h (renderMode s) s2"
      unfolding appendToBatch_Container by (auto split: sum.splits)
    from ih k p1 c have "P s2" by blast
    then show "P s'" using mode by (simp add: s' restoreMode_def)
  qed
next
  case (2 h p i r concatMtx concatAlpha ignoreCache s)
  then show ?case by simp
next
  case (3 h p f concatMtx concatAlpha ignoreCache s)
  then show ?case by simp
next
  case (4 h p concatMtx concatAlpha ignoreCache s)
  then show ?case by simp
next
  case (5 h cMtx concatAlpha ignoreCache s)
  then show ?case by simp
next
  case (6 h item rest cMtx concatAlpha ignoreCache s)
  show ?case
  proof (intro allI impI)
    fix s' assume k: "keptByCards h P" and p: "P s"
      and r: "appendChildren h (item # rest) cMtx concatAlpha ignoreCache s = Inr s'"
    from r obtain s1 where
      i1: "appendItem h item cMtx concatAlpha ignoreCache s = Inr s1"
      and r1: "appendChildren h rest cMtx concatAlpha ignoreCache s1 = Inr s'"
      by (auto split: sum.splits)
    from "6.IH"(1) k p i1 have "P s1" by blast
    with "6.IH"(2) [OF i1] k r1 show "P s'" by blast
  qed
next
  case (7 h item cMtx concatAlpha ignoreCache s)
  show ?case
  proof (intro allI impI)
    fix s' assume k: "keptByCards h P" and p: "P s"
      and r: "appendItem h item cMtx concatAlpha ignoreCache s = Inr s'"
    let ?uc = "if ignoreCache then None else cache (propsOf item)"
    show "P s'"
    proof (cases "\<not> (visible (propsOf item) \<and> jsGreater concatAlpha alphaThreshold)")
      case True
      with r p show ?thesis by (simp add: appendItem_cases)
    next
      case vis: False
      show ?thesis
      proof (cases "?uc = None \<and> hasChildren item")
        case True
        with vis r have
          "appendToBatch h item cMtx (jsMul (alpha (propsOf item)) concatAlpha) False s = Inr s'"
          by (simp add: appendItem_cases)
        with "7.IH" [OF refl vis True] k p show ?thesis by blast
      next
        case False
        with vis r have "appendCard h item ?uc cMtx concatAlpha s = Inr s'"
          unfolding appendItem_cases by (simp split: if_splits)
        with k p show ?thesis unfolding keptByCards_def by blast
      qed
    qed
  qed
qed

lemma appendToBatch_kept:
  assumes "keptByCards h P" and "P s" and "appendToBatch h c mt a ic s = Inr s'"
  shows "P s'"
  using traversal_kept(1) [of h P s c mt a ic] assms by blast

subsection \<open>C5: skipped nodes\<close>

lemma jsLess_not_jsGreater: "jsLess a b \<Longrightarrow> \<not> jsGreater a b"
  by (cases a; cases b) (auto simp: jsLess_def)

lemma renderBatch_cardWork:
  "cardsAppended (history (renderBatch s)) = cardsAppended (history s)
   \<and> texturesResolved (history (renderBatch s)) = texturesResolved (history s)"
  by (simp add: renderBatch_def cardsAppended_def texturesResolved_def)

lemma updateRenderMode_cardWork:
  "cardsAppended (history (updateRenderMode h m s)) = cardsAppended (history s)
   \<and> texturesResolved (history (updateRenderMode h m s)) = texturesResolved (history s)"
  using updateRenderMode_shape [of h m s] renderBatch_cardWork
  by (auto simp: switched_def)

lemma appendChildren_skipped:
  "\<not> jsGreater concatAlpha alphaThreshold \<Longrightarrow> appendChildren h cs cMtx concatAlpha ic s = Inr s"
  by (induction cs) simp_all

text \<open>
  C5, as the code has it. The test at the head of the loop of \<^verbatim>\<open>_appendToBatch\<close> is
  \<^verbatim>\<open>item.visible && concatAlpha > 0.0035\<close>, where \<^verbatim>\<open>concatAlpha\<close> is the alpha
  accumulated over the ancestors of the item, the item's own alpha not included, a double
  compared with the double \<^verbatim>\<open>0.0035\<close>. An item that is invisible, or whose ancestors'
  accumulated alpha is below 0.0035, leaves the state as it is: no vertex is appended and
  no texture resolved for it or below it. The item's own alpha counts only when it is
  drawn through its children (a container without a cache in use): if the product
  \<^verbatim>\<open>itemAlpha * concatAlpha\<close>, as the code computes it, is below 0.0035, the traversal
  of the container returns, and no card is appended and no texture resolved below it.
\<close>

theorem skipped_nodes_append_nothing:
  "(\<not> visible (propsOf item) \<or> jsLess concatAlpha alphaThreshold
      \<longrightarrow> appendItem h item cMtx concatAlpha ic s = Inr s)
   \<and> (jsLess (jsMul (alpha p) concatAlpha) alphaThreshold \<and> (ic \<or> cache p = None)
      \<longrightarrow> (\<exists>s'. appendItem h (Container p cs) cMtx concatAlpha ic s = Inr s'
             \<and> cardsAppended (history s') = cardsAppended (history s)
             \<and> texturesResolved (history s') = texturesResolved (history s)))"
proof (intro conjI impI)
  assume "\<not> visible (propsOf item) \<or> jsLess concatAlpha alphaThreshold"
  then show "appendItem h item cMtx concatAlpha ic s = Inr s"
    using jsLess_not_jsGreater by (auto simp: appendItem_cases)
next
  assume a: "jsLess (jsMul (alpha p) concatAlpha) alphaThreshold \<and> (ic \<or> cache p = None)"
  show "\<exists>s'. appendItem h (Container p cs) cMtx concatAlpha ic s = Inr s'
             \<and> cardsAppended (history s') = cardsAppended (history s)
             \<and> texturesResolved (history s') = texturesResolved (history s)"
  proof (cases "visible p \<and> jsGreater concatAlpha alphaThreshold")
    case False
    then have "appendItem h (Container p cs) cMtx concatAlpha ic s = Inr s"
      by (auto simp: appendItem_cases)
    then show ?thesis by simp
  next
    case True
    define s1 where "s1 = enterMode h p s"
    define s2 where "s2 = restoreMode h (renderMode s) s1"
    from a have "\<not> jsGreater (jsMul (alpha p) concatAlpha) alphaThreshold"
      by (simp add: jsLess_not_jsGreater)
    then have kids: "appendChildren h cs (appendMatrix cMtx (localMatrix p))
                       (jsMul (alpha p) concatAlpha) False s1 = Inr s1"
      by (rule appendChildren_skipped)
    from True a have "appendItem h (Container p cs) cMtx concatAlpha ic s
        = appendToBatch h (Container p cs) cMtx (jsMul (alpha p) concatAlpha) False s"
      by (auto simp: appendItem_cases)
    also have "\<dots> = Inr s2"
      unfolding appendToBatch_Container using kids by (simp add: s1_def s2_def)
    finally have r: "appendItem h (Container p cs) cMtx concatAlpha ic s = Inr s2" .
    have "cardsAppended (history s1) = cardsAppended (history s)
          \<and> texturesResolved (history s1) = texturesResolved (history s)"
      using updateRenderMode_cardWork by (simp add: s1_def enterMode_def)
    moreover have "cardsAppended (history s2) = cardsAppended (history s1)
          \<and> texturesResolved (history s2) = texturesResolved (history s1)"
      using updateRenderMode_cardWork by (simp add: s2_def restoreMode_def)
    ultimately show ?thesis using r by simp
  qed
qed

text \<open>
  On the sample stage: an invisible bitmap, and a container of alpha 1/1024 holding an
  opaque bitmap.
\<close>

theorem skipped_nodes_append_nothing_witness:
  "appendItem (sampleHost 2) (Bitmap (plainProps\<lparr>visible := False\<rparr>) (Some 0) None)
      identityMatrix (Number 1) False sampleStage = Inr sampleStage
   \<and> (\<exists>s'. appendItem (sampleHost 2)
              (Container (plainProps\<lparr>alpha := Number (1 / 1024)\<rparr>) [Bitmap plainProps (Some 0) None])
              identityMatrix (Number 1) False sampleStage = Inr s'
         \<and> cardsAppended (history s') = cardsAppended (history sampleStage)
         \<and> texturesResolved (history s') = texturesResolved (history sampleStage))"
proof -
  have below: "jsLess (jsMul (Number (1 / 1024)) (Number 1)) alphaThreshold"
    by code_simp
  show ?thesis
    using skipped_nodes_append_nothing [of "Bitmap (plainProps\<lparr>visible := False\<rparr>) (Some 0) None"
        "Number 1" "sampleHost 2" identityMatrix False sampleStage
        "plainProps\<lparr>alpha := Number (1 / 1024)\<rparr>" "[Bitmap plainProps (Some 0) None]"] below
    by (simp add: plainProps_def)
qed

text \<open>
  C5 as the specification words it does not hold: the accumulated alpha of the faint
  bitmap, its own alpha included, is 0, below 0.0035, and drawing it on the sample stage
  resolves its texture once, appends one card and renders it.
\<close>

theorem faint_bitmap_is_drawn:
  "jsLess (jsMul (alpha (propsOf faintBitmap)) (stageAlpha sampleStage)) alphaThreshold
   \<and> (case drawContent (sampleHost 2) (Container plainProps [faintBitmap]) False sampleStage of
         Inl e \<Rightarrow> False
       | Inr s' \<Rightarrow> cardsAppended (history s') = 1 \<and> texturesResolved (history s') = 1
           \<and> batchVertexCount s' = 0 \<and> renderPerDraw s' = 1)"
proof -
  have below: "jsLess (jsMul (Number 0) (Number 1)) alphaThreshold"
    by code_simp
  have above: "jsGreater (Number 1) alphaThreshold"
    by code_simp
  have draw: "(case drawContent (sampleHost 2) (Container plainProps [faintBitmap]) False sampleStage of
         Inl e \<Rightarrow> False
       | Inr s' \<Rightarrow> cardsAppended (history s') = 1 \<and> texturesResolved (history s') = 1
           \<and> batchVertexCount s' = 0 \<and> renderPerDraw s' = 1)"
    by (simp add: above faintBitmap_def plainProps_def sampleStage_def sampleHost_def drawContent_def
      appendCard_def truthy_def INDICIES_PER_CARD_def renderBatch_def resolveTexture_def
      sampleImages_def loadTextureImage_def registerImage_def getSafeTexture_def getBaseTexture_def
      arraySet_def trackImage_def blankTexture_def insertTextureInBatch_def occupiesRecordedSlot_def
      slotStart_def slotScan.simps slotEvictable_def setSlot_def refreshTexture_def
      updateTextureImageData_def stampTexture_def writeCard_def dictLookup_def
      activeArray_def cardsAppended_def texturesResolved_def Let_def)
  show ?thesis using below draw by (simp add: faintBitmap_def plainProps_def sampleStage_def)
qed

subsection \<open>Writes into the vertex arrays\<close>

lemma writeAt_length [simp]: "length (writeAt arr off vs) = length arr"
  by (induction vs arbitrary: arr off) simp_all

lemma writeAt_before: "k < off \<Longrightarrow> writeAt arr off vs ! k = arr ! k"
  by (induction vs arbitrary: arr off) simp_all

lemma writeAt_take: "k \<le> off \<Longrightarrow> take k (writeAt arr off vs) = take k arr"
  by (induction vs arbitrary: arr off) simp_all

lemma writeAt_read:
  "off + length vs \<le> length arr \<Longrightarrow> take (length vs) (drop off (writeAt arr off vs)) = vs"
proof (induction vs arbitrary: arr off)
  case Nil
  then show ?case by simp
next
  case (Cons v vs)
  have l: "off < length (writeAt (arr[off := v]) (Suc off) vs)" using Cons.prems by simp
  have hd: "writeAt (arr[off := v]) (Suc off) vs ! off = v"
    using Cons.prems by (simp add: writeAt_before)
  have "drop off (writeAt (arr[off := v]) (Suc off) vs)
        = v # drop (Suc off) (writeAt (arr[off := v]) (Suc off) vs)"
    using l hd by (metis Cons_nth_drop_Suc)
  moreover have "take (length vs) (drop (Suc off) (writeAt (arr[off := v]) (Suc off) vs)) = vs"
    using Cons.prems by (intro Cons.IH) simp
  ultimately show ?case by simp
qed

subsection \<open>A stage that draws directly\<close>

lemma flushed_direct:
  "directBatch (flushed r s) = directBatch s
   \<and> defaultArray (flushed r s) = defaultArray s
   \<and> maxBatchVertexCount (flushed r s) = maxBatchVertexCount s
   \<and> images (flushed r s) = images s
   \<and> renderMode (flushed r s) = renderMode s
   \<and> batchVertexCount (flushed r s) = 0
   \<and> lastCard (history (flushed r s)) = lastCard (history s)
   \<and> cardsAppended (history (flushed r s)) = cardsAppended (history s)"
  by (simp add: flushed_def renderBatch_def directBatch_def cardsAppended_def)

lemma updateRenderMode_direct:
  assumes "directBatch s"
  shows "directBatch (updateRenderMode h m s)
   \<and> defaultArray (updateRenderMode h m s) = defaultArray s
   \<and> maxBatchVertexCount (updateRenderMode h m s) = maxBatchVertexCount s
   \<and> images (updateRenderMode h m s) = images s
   \<and> batchVertexCount (updateRenderMode h m s) \<le> batchVertexCount s
   \<and> lastCard (history (updateRenderMode h m s)) = lastCard (history s)
   \<and> cardsAppended (history (updateRenderMode h m s)) = cardsAppended (history s)"
proof -
  from updateRenderMode_shape [of h m s]
  consider bs where "updateRenderMode h m s = s\<lparr>builtShaders := bs\<rparr>"
    | n sd bs where "updateRenderMode h m s = switched n sd bs s" "sd_immediate sd \<longrightarrow> \<not> directDraw s"
    by blast
  then show ?thesis
  proof cases
    case 1
    with assms show ?thesis by (simp add: directBatch_def)
  next
    case 2
    with assms have "\<not> sd_immediate sd" by (simp add: directBatch_def)
    with 2 assms show ?thesis
      by (simp add: switched_def renderBatch_def directBatch_def cardsAppended_def)
  qed
qed

lemma cardStart_direct:
  assumes "directBatch s"
  shows "directBatch (cardStart h item s)
   \<and> defaultArray (cardStart h item s) = defaultArray s
   \<and> maxBatchVertexCount (cardStart h item s) = maxBatchVertexCount s
   \<and> images (cardStart h item s) = images s
   \<and> lastCard (history (cardStart h item s)) = lastCard (history s)
   \<and> cardsAppended (history (cardStart h item s)) = cardsAppended (history s)"
  using assms updateRenderMode_direct [OF assms, of h "compositeOperation (propsOf item)"]
    flushed_direct
  by (simp add: cardStart_def Let_def)

lemma sameBatch_direct:
  assumes "sameBatch a b"
  shows "directBatch b = directBatch a \<and> defaultArray b = defaultArray a
     \<and> maxBatchVertexCount b = maxBatchVertexCount a
     \<and> batchVertexCount b = batchVertexCount a
     \<and> lastCard (history b) = lastCard (history a)
     \<and> cardsAppended (history b) = cardsAppended (history a)"
  using assms by (simp add: sameBatch_def directBatch_def)

lemma resolveTexture_direct:
  assumes "resolveTexture h i s = Inr (rt, s')"
  shows "directBatch s' = directBatch s \<and> defaultArray s' = defaultArray s
     \<and> maxBatchVertexCount s' = maxBatchVertexCount s
     \<and> batchVertexCount s' \<le> batchVertexCount s
     \<and> lastCard (history s') = lastCard (history s)
     \<and> cardsAppended (history s') = cardsAppended (history s)"
proof -
  let ?n = "noted (ResolveTexture i) s"
  have n: "directBatch ?n = directBatch s \<and> defaultArray ?n = defaultArray s
     \<and> maxBatchVertexCount ?n = maxBatchVertexCount s
     \<and> batchVertexCount ?n = batchVertexCount s
     \<and> lastCard (history ?n) = lastCard (history s)
     \<and> cardsAppended (history ?n) = cardsAppended (history s)"
    by (simp add: noted_def directBatch_def cardsAppended_def)
  from resolveTexture_sameBatch [OF assms]
  show ?thesis
  proof
    assume "sameBatch ?n s'"
    from sameBatch_direct [OF this] n show ?thesis by simp
  next
    assume "sameBatch (flushed ''textureOverflow'' ?n) s'"
    from sameBatch_direct [OF this] n flushed_direct [of "''textureOverflow''" ?n]
    show ?thesis by simp
  qed
qed

subsection \<open>C6: the uv corners of a bitmap card\<close>

lemma unit_flips:
  "jsSub (Number 1) (Number 0) = Number 1" "jsSub (Number 1) (Number 1) = Number 0"
  "toFloat32 0 = Number 0" "toFloat32 1 = Number 1"
  by code_simp+

lemma full_image_uvs:
  "uvPairs (cardVerticesOf (Bitmap p i None) None w hh m ti al)
     = flippedCorners (Number 0) (Number 0) (Number 1) (Number 1)"
  by (simp add: cardVerticesOf_def uvPairs_def cardVertices_def mkVertex_def
      flippedCorners_def UV_RECT_def unit_flips)

lemma unit_corners:
  "set (flippedCorners (Number 0) (Number 0) (Number 1) (Number 1))
     = {(Number 0, Number 0), (Number 0, Number 1), (Number 1, Number 0), (Number 1, Number 1)}"
  by (simp add: flippedCorners_def unit_flips insert_commute)

lemma source_rect_uvs:
  "uvPairs (cardVerticesOf (Bitmap p i (Some r)) None w hh m ti al)
     = flippedCorners (jsDiv (r_x r) (Number (of_nat w))) (jsDiv (r_y r) (Number (of_nat hh)))
         (jsDiv (jsAdd (r_x r) (r_width r)) (Number (of_nat w)))
         (jsDiv (jsAdd (r_y r) (r_height r)) (Number (of_nat hh)))"
  by (simp add: cardVerticesOf_def uvPairs_def cardVertices_def mkVertex_def
      flippedCorners_def sourceRectUV_def)

lemma writeCard_direct:
  assumes d: "directBatch s" and l: "length vs = INDICIES_PER_CARD"
    and room: "batchVertexCount s + INDICIES_PER_CARD \<le> length (defaultArray s)"
  shows "directBatch (writeCard vs s)
     \<and> lastCard (history (writeCard vs s)) = Some (batchVertexCount s + INDICIES_PER_CARD, vs)
     \<and> length (defaultArray (writeCard vs s)) = length (defaultArray s)
     \<and> take INDICIES_PER_CARD (drop (batchVertexCount s) (defaultArray (writeCard vs s))) = vs
     \<and> images (writeCard vs s) = images s"
proof -
  have "take (length vs) (drop (batchVertexCount s)
           (writeAt (defaultArray s) (batchVertexCount s) vs)) = vs"
    using room l by (intro writeAt_read) simp
  with d l show ?thesis by (simp add: writeCard_def directBatch_def)
qed

lemma cardFinish_direct:
  assumes d: "directBatch s"
    and room: "batchVertexCount s + INDICIES_PER_CARD \<le> length (defaultArray s)"
    and r: "cardFinish h item uc m a crm i t s = Inr s'"
  shows "lastCard (history s')
           = Some (batchVertexCount s + INDICIES_PER_CARD,
                   cardVerticesOf item uc (img_width (images s' i)) (img_height (images s' i))
                     (appendMatrix m (localMatrix (propsOf item)))
                     (tex_activeIndex (textures s t)) (jsMul (alpha (propsOf item)) a))
     \<and> length (defaultArray s') = length (defaultArray s)
     \<and> take INDICIES_PER_CARD (drop (batchVertexCount s) (defaultArray s'))
           = cardVerticesOf item uc (img_width (images s' i)) (img_height (images s' i))
                     (appendMatrix m (localMatrix (propsOf item)))
                     (tex_activeIndex (textures s t)) (jsMul (alpha (propsOf item)) a)"
proof -
  define s4 where "s4 = s\<lparr>images := (images s)(i := (images s i)\<lparr>img_drawID := Some (drawID s)\<rparr>)\<rparr>"
  define vs where "vs = cardVerticesOf item uc (img_width (images s4 i))
                          (img_height (images s4 i)) (appendMatrix m (localMatrix (propsOf item)))
                          (tex_activeIndex (textures s t)) (jsMul (alpha (propsOf item)) a)"
  define s5 where "s5 = writeCard vs s4"
  have d4: "directBatch s4" using d by (simp add: s4_def directBatch_def)
  have room4: "batchVertexCount s4 + INDICIES_PER_CARD \<le> length (defaultArray s4)"
    using room by (simp add: s4_def)
  have lv: "length vs = INDICIES_PER_CARD" by (simp add: vs_def cardVerticesOf_length)
  note w = writeCard_direct [OF d4 lv room4, folded s5_def]
  from w have ni: "\<not> immediateRender s5" by (simp add: directBatch_def)
  from r have "(case (if immediateRender s5
               then immediateBatchRender h (s5\<lparr>activeConfig := DefaultConfig\<rparr>)
               else Inr s5) of
           Inl e \<Rightarrow> Inl e
         | Inr s6 \<Rightarrow> Inr (if renderMode s6 \<noteq> crm then updateRenderMode h (Some crm) s6 else s6))
         = Inr s'"
    unfolding cardFinish_def Let_def s5_def vs_def s4_def .
  with ni have s': "s' = (if renderMode s5 \<noteq> crm then updateRenderMode h (Some crm) s5 else s5)"
    by simp
  from w have d5: "directBatch s5" by simp
  have keep: "defaultArray s' = defaultArray s5 \<and> images s' = images s5
              \<and> lastCard (history s') = lastCard (history s5)"
    using updateRenderMode_direct [OF d5, of h "Some crm"] by (simp add: s')
  have im: "images s5 = images s4" using w by simp
  have wi: "img_width (images s' i) = img_width (images s4 i)
            \<and> img_height (images s' i) = img_height (images s4 i)"
    using keep im by simp
  have "batchVertexCount s4 = batchVertexCount s \<and> length (defaultArray s4) = length (defaultArray s)"
    by (simp add: s4_def)
  with w keep wi show ?thesis by (simp add: vs_def)
qed

lemma card_written:
  assumes d: "directBatch s"
    and len: "maxBatchVertexCount s \<le> length (defaultArray s)"
    and cap: "INDICIES_PER_CARD \<le> maxBatchVertexCount s"
    and r: "appendCard h item uc cMtx concatAlpha s = Inr s'"
    and c: "cardsAppended (history s') \<noteq> cardsAppended (history s)"
  shows "\<exists>n i ti. cardImage item uc = Some i
      \<and> lastCard (history s')
          = Some (n, cardVerticesOf item uc (img_width (images s' i)) (img_height (images s' i))
                       (appendMatrix cMtx (localMatrix (propsOf item))) ti
                       (jsMul (alpha (propsOf item)) concatAlpha))
      \<and> INDICIES_PER_CARD \<le> n \<and> n \<le> length (defaultArray s')
      \<and> take INDICIES_PER_CARD (drop (n - INDICIES_PER_CARD) (defaultArray s'))
          = cardVerticesOf item uc (img_width (images s' i)) (img_height (images s' i))
                       (appendMatrix cMtx (localMatrix (propsOf item))) ti
                       (jsMul (alpha (propsOf item)) concatAlpha)"
proof -
  let ?s2 = "cardStart h item s"
  note s2 = cardStart_direct [OF d, of h item]
  have room2: "batchVertexCount ?s2 + INDICIES_PER_CARD \<le> maxBatchVertexCount ?s2"
    using cap s2 by (intro cardStart_room) simp
  show ?thesis
  proof (cases "cardImage item uc")
    case None
    with r have "s' = ?s2" by (simp add: appendCard_parts)
    with s2 c show ?thesis by simp
  next
    case (Some i)
    with r obtain rt s3 where rs: "resolveTexture h i ?s2 = Inr (rt, s3)"
      by (auto simp: appendCard_parts split: sum.splits)
    note s3 = resolveTexture_direct [OF rs]
    show ?thesis
    proof (cases rt)
      case None
      with r Some rs have "s' = s3" by (simp add: appendCard_parts)
      with s2 s3 c show ?thesis by simp
    next
      case t: (Some t)
      with r Some rs have f: "cardFinish h item uc cMtx concatAlpha (renderMode s) i t s3 = Inr s'"
        by (simp add: appendCard_parts)
      have d3: "directBatch s3" using s3 s2 by simp
      have room3: "batchVertexCount s3 + INDICIES_PER_CARD \<le> length (defaultArray s3)"
        using s3 s2 room2 len by simp
      note fin = cardFinish_direct [OF d3 room3 f]
      let ?n = "batchVertexCount s3 + INDICIES_PER_CARD"
      let ?vs = "cardVerticesOf item uc (img_width (images s' i)) (img_height (images s' i))
                       (appendMatrix cMtx (localMatrix (propsOf item))) (tex_activeIndex (textures s3 t))
                       (jsMul (alpha (propsOf item)) concatAlpha)"
      have "cardImage item uc = Some i \<and> lastCard (history s') = Some (?n, ?vs)
          \<and> INDICIES_PER_CARD \<le> ?n \<and> ?n \<le> length (defaultArray s')
          \<and> take INDICIES_PER_CARD (drop (?n - INDICIES_PER_CARD) (defaultArray s')) = ?vs"
        using fin Some room3 by simp
      then show ?thesis by blast
    qed
  qed
qed

text \<open>
  C6, as the code has it. On a stage that draws directly whose vertex array holds the
  configured capacity, a bitmap drawn from its image (its cache not in use) that a round
  of the loop of \<^verbatim>\<open>_appendToBatch\<close> appends as a card leaves, in the vertex array at the six places before the cursor it
  records, six vertices whose uv pairs are the corners of one rectangle under one
  convention (\<open>flippedCorners\<close>: v is written as \<open>1 - v\<close>, vertex order LT, LB, RT, LB,
  RT, RB): the unit square for a bitmap without \<^verbatim>\<open>sourceRect\<close>, so exactly the four
  pairs of 0 and 1; and for a \<^verbatim>\<open>sourceRect\<close> (x, y, w, h) on an image W by H the
  rectangle from x/W, y/H to (x+w)/W, (y+h)/H, the sums and quotients computed in
  doubles and each number rounded to the single the \<^verbatim>\<open>Float32Array\<close> keeps.
\<close>

theorem bitmap_card_uv_corners:
  assumes "directBatch s"
    and "maxBatchVertexCount s \<le> length (defaultArray s)"
    and "INDICIES_PER_CARD \<le> maxBatchVertexCount s"
    and "ic \<or> cache p = None"
    and "appendItem h (Bitmap p (Some i) src) cMtx concatAlpha ic s = Inr s'"
    and "cardsAppended (history s') \<noteq> cardsAppended (history s)"
  shows "\<exists>n vs. lastCard (history s') = Some (n, vs)
      \<and> INDICIES_PER_CARD \<le> n \<and> n \<le> length (defaultArray s')
      \<and> take INDICIES_PER_CARD (drop (n - INDICIES_PER_CARD) (defaultArray s')) = vs
      \<and> uvPairs vs =
          (case src of
             None \<Rightarrow> flippedCorners (Number 0) (Number 0) (Number 1) (Number 1)
           | Some r \<Rightarrow>
               flippedCorners
                 (jsDiv (r_x r) (Number (of_nat (img_width (images s' i)))))
                 (jsDiv (r_y r) (Number (of_nat (img_height (images s' i)))))
                 (jsDiv (jsAdd (r_x r) (r_width r)) (Number (of_nat (img_width (images s' i)))))
                 (jsDiv (jsAdd (r_y r) (r_height r)) (Number (of_nat (img_height (images s' i))))))
      \<and> (src = None \<longrightarrow>
            set (uvPairs vs)
              = {(Number 0, Number 0), (Number 0, Number 1), (Number 1, Number 0),
                 (Number 1, Number 1)})"
proof -
  have uc: "(if ic then None else cache (propsOf (Bitmap p (Some i) src))) = None"
    using assms(4) by auto
  have r: "appendCard h (Bitmap p (Some i) src) None cMtx concatAlpha s = Inr s'"
  proof (cases "visible p \<and> jsGreater concatAlpha alphaThreshold")
    case True
    with assms(5) uc show ?thesis unfolding appendItem_cases by simp
  next
    case False
    with assms(5) have "s' = s" unfolding appendItem_cases by auto
    with assms(6) show ?thesis by simp
  qed
  from card_written [OF assms(1-3) r assms(6)] obtain n j ti where
    j: "cardImage (Bitmap p (Some i) src) None = Some j"
    and w: "lastCard (history s')
          = Some (n, cardVerticesOf (Bitmap p (Some i) src) None (img_width (images s' j))
                       (img_height (images s' j))
                       (appendMatrix cMtx (localMatrix (propsOf (Bitmap p (Some i) src)))) ti
                       (jsMul (alpha (propsOf (Bitmap p (Some i) src))) concatAlpha))"
      "INDICIES_PER_CARD \<le> n" "n \<le> length (defaultArray s')"
      "take INDICIES_PER_CARD (drop (n - INDICIES_PER_CARD) (defaultArray s'))
          = cardVerticesOf (Bitmap p (Some i) src) None (img_width (images s' j))
                       (img_height (images s' j))
                       (appendMatrix cMtx (localMatrix (propsOf (Bitmap p (Some i) src)))) ti
                       (jsMul (alpha (propsOf (Bitmap p (Some i) src))) concatAlpha)"
    by blast
  from j have ji: "j = i" by simp
  show ?thesis
  proof (cases src)
    case None
    with w ji show ?thesis by (simp add: full_image_uvs unit_corners)
  next
    case (Some r)
    with w ji show ?thesis by (simp add: source_rect_uvs)
  qed
qed

lemma sample_card_appended:
  "case appendCard (sampleHost 2) (Bitmap plainProps (Some 0) src) None identityMatrix (Number 1)
          (sampleStage\<lparr>images := sampleImages(0 := (sampleImages 0)\<lparr>img_width := w, img_height := hh\<rparr>)\<rparr>) of
     Inl e \<Rightarrow> False
   | Inr s' \<Rightarrow> cardsAppended (history s') = 1 \<and> img_width (images s' 0) = w
        \<and> img_height (images s' 0) = hh"
  by (simp add: plainProps_def sampleStage_def sampleHost_def
      appendCard_def truthy_def INDICIES_PER_CARD_def renderBatch_def resolveTexture_def
      sampleImages_def loadTextureImage_def registerImage_def getSafeTexture_def getBaseTexture_def
      arraySet_def trackImage_def blankTexture_def insertTextureInBatch_def occupiesRecordedSlot_def
      slotStart_def slotScan.simps slotEvictable_def setSlot_def refreshTexture_def
      updateTextureImageData_def stampTexture_def writeCard_def dictLookup_def
      activeArray_def cardsAppended_def Let_def)

lemma sample_item_is_card:
  "appendItem h (Bitmap plainProps i src) identityMatrix (Number 1) False s
     = appendCard h (Bitmap plainProps i src) None identityMatrix (Number 1) s"
proof -
  have "jsGreater (Number 1) alphaThreshold" by code_simp
  then show ?thesis unfolding appendItem_cases by (simp add: plainProps_def)
qed

lemma sample_direct:
  "directBatch sampleStage \<and> maxBatchVertexCount sampleStage \<le> length (defaultArray sampleStage)
   \<and> INDICIES_PER_CARD \<le> maxBatchVertexCount sampleStage
   \<and> cardsAppended (history sampleStage) = 0"
  by (simp add: sampleStage_def directBatch_def INDICIES_PER_CARD_def cardsAppended_def)

text \<open>
  On the sample stage, whose image 0 is 128 by 64: the card of the bitmap showing the
  rectangle (16, 32, 64, 32) has the uv corners 1/8, 5/8 by 1/2, 0.
\<close>

theorem bitmap_card_uv_corners_witness:
  "directBatch sampleStage
   \<and> maxBatchVertexCount sampleStage \<le> length (defaultArray sampleStage)
   \<and> INDICIES_PER_CARD \<le> maxBatchVertexCount sampleStage
   \<and> cache plainProps = None
   \<and> (\<exists>s'. appendItem (sampleHost 2) croppedBitmap identityMatrix (Number 1) False sampleStage
                = Inr s'
         \<and> cardsAppended (history s') \<noteq> cardsAppended (history sampleStage)
         \<and> (\<exists>n vs. lastCard (history s') = Some (n, vs)
               \<and> take INDICIES_PER_CARD (drop (n - INDICIES_PER_CARD) (defaultArray s')) = vs
               \<and> uvPairs vs =
                    [(Number (1 / 8), Number (1 / 2)), (Number (1 / 8), Number 0),
                     (Number (5 / 8), Number (1 / 2)), (Number (1 / 8), Number 0),
                     (Number (5 / 8), Number (1 / 2)), (Number (5 / 8), Number 0)]))"
proof -
  let ?r = "\<lparr>r_x = Number 16, r_y = Number 32, r_width = Number 64, r_height = Number 32\<rparr>"
  have "sampleImages(0 := (sampleImages 0)\<lparr>img_width := 128, img_height := 64\<rparr>) = sampleImages"
    by (rule ext) (simp add: sampleImages_def)
  then have same: "sampleStage\<lparr>images := sampleImages(0 := (sampleImages 0)\<lparr>img_width := 128, img_height := 64\<rparr>)\<rparr>
              = sampleStage"
    by (simp add: sampleStage_def)
  from sample_card_appended [where src = "Some ?r" and w = 128 and hh = 64] obtain s' where
    r: "appendItem (sampleHost 2) (Bitmap plainProps (Some 0) (Some ?r)) identityMatrix
          (Number 1) False sampleStage = Inr s'"
    and c: "cardsAppended (history s') = 1"
    and w: "img_width (images s' 0) = 128" "img_height (images s' 0) = 64"
    unfolding same sample_item_is_card by (auto split: sum.splits)
  have c': "cardsAppended (history s') \<noteq> cardsAppended (history sampleStage)"
    using c sample_direct by simp
  have fc: "flippedCorners (jsDiv (Number 16) (Number (of_nat (128 :: nat))))
              (jsDiv (Number 32) (Number (of_nat (64 :: nat))))
              (jsDiv (jsAdd (Number 16) (Number 64)) (Number (of_nat (128 :: nat))))
              (jsDiv (jsAdd (Number 32) (Number 32)) (Number (of_nat (64 :: nat))))
            = [(Number (1 / 8), Number (1 / 2)), (Number (1 / 8), Number 0),
               (Number (5 / 8), Number (1 / 2)), (Number (1 / 8), Number 0),
               (Number (5 / 8), Number (1 / 2)), (Number (5 / 8), Number 0)]"
    by code_simp
  have d: "directBatch sampleStage"
    "maxBatchVertexCount sampleStage \<le> length (defaultArray sampleStage)"
    "INDICIES_PER_CARD \<le> maxBatchVertexCount sampleStage"
    using sample_direct by simp_all
  have nc: "cache plainProps = None" by (simp add: plainProps_def)
  then have nc': "False \<or> cache plainProps = None" by simp
  note t = bitmap_card_uv_corners [OF d nc' r c', unfolded option.case rect.select_convs w fc]
  then obtain n vs where
    "lastCard (history s') = Some (n, vs)"
    "take INDICIES_PER_CARD (drop (n - INDICIES_PER_CARD) (defaultArray s')) = vs"
    "uvPairs vs =
           [(Number (1 / 8), Number (1 / 2)), (Number (1 / 8), Number 0),
            (Number (5 / 8), Number (1 / 2)), (Number (1 / 8), Number 0),
            (Number (5 / 8), Number (1 / 2)), (Number (5 / 8), Number 0)]"
    by blast
  then have e: "\<exists>n vs. lastCard (history s') = Some (n, vs)
      \<and> take INDICIES_PER_CARD (drop (n - INDICIES_PER_CARD) (defaultArray s')) = vs
      \<and> uvPairs vs =
           [(Number (1 / 8), Number (1 / 2)), (Number (1 / 8), Number 0),
            (Number (5 / 8), Number (1 / 2)), (Number (1 / 8), Number 0),
            (Number (5 / 8), Number (1 / 2)), (Number (5 / 8), Number 0)]"
    by blast
  have "\<exists>s'. appendItem (sampleHost 2) croppedBitmap identityMatrix (Number 1) False sampleStage
                = Inr s'
         \<and> cardsAppended (history s') \<noteq> cardsAppended (history sampleStage)
         \<and> (\<exists>n vs. lastCard (history s') = Some (n, vs)
               \<and> take INDICIES_PER_CARD (drop (n - INDICIES_PER_CARD) (defaultArray s')) = vs
               \<and> uvPairs vs =
                    [(Number (1 / 8), Number (1 / 2)), (Number (1 / 8), Number 0),
                     (Number (5 / 8), Number (1 / 2)), (Number (1 / 8), Number 0),
                     (Number (5 / 8), Number (1 / 2)), (Number (5 / 8), Number 0)])"
    unfolding croppedBitmap_def using r c' e by (intro exI [where x = s'] conjI)
  with d nc show ?thesis by (intro conjI)
qed

text \<open>
  C6 as the specification words it does not hold: on a page whose image 0 is 3 pixels
  wide, the card of the bitmap showing the middle pixel has, in the vertex array, the left
  u coordinate 11184811/33554432, the single nearest to a third, which is neither the
  third nor the double quotient \<^verbatim>\<open>1/3\<close>.
\<close>

theorem third_is_stored_rounded:
  "case appendItem (sampleHost 2) middlePixel identityMatrix (Number 1) False thirdsStage of
     Inl e \<Rightarrow> False
   | Inr s' \<Rightarrow>
       (case lastCard (history s') of
          None \<Rightarrow> False
        | Some (n, vs) \<Rightarrow>
            take INDICIES_PER_CARD (drop (n - INDICIES_PER_CARD) (defaultArray s')) = vs
            \<and> fst (hd (uvPairs vs)) = Number (11184811 / 33554432)
            \<and> fst (hd (uvPairs vs)) \<noteq> Number (1 / 3)
            \<and> fst (hd (uvPairs vs)) \<noteq> jsDiv (Number 1) (Number 3))"
proof -
  let ?r = "\<lparr>r_x = Number 1, r_y = Number 1, r_width = Number 1, r_height = Number 1\<rparr>"
  from sample_card_appended [where src = "Some ?r" and w = 3 and hh = 3] obtain s' where
    r: "appendCard (sampleHost 2) (Bitmap plainProps (Some 0) (Some ?r)) None identityMatrix
          (Number 1) thirdsStage = Inr s'"
    and c: "cardsAppended (history s') = 1"
    and w: "img_width (images s' 0) = 3" "img_height (images s' 0) = 3"
    unfolding thirdsStage_def by (auto split: sum.splits)
  have d: "directBatch thirdsStage"
    "maxBatchVertexCount thirdsStage \<le> length (defaultArray thirdsStage)"
    "INDICIES_PER_CARD \<le> maxBatchVertexCount thirdsStage"
    "cardsAppended (history s') \<noteq> cardsAppended (history thirdsStage)"
    using sample_direct c by (simp_all add: thirdsStage_def directBatch_def)
  from card_written [OF d(1-3) r d(4)] obtain n ti where
    l: "lastCard (history s')
          = Some (n, cardVerticesOf (Bitmap plainProps (Some 0) (Some ?r)) None 3 3
                       (appendMatrix identityMatrix (localMatrix plainProps)) ti
                       (jsMul (alpha plainProps) (Number 1)))"
    and a: "take INDICIES_PER_CARD (drop (n - INDICIES_PER_CARD) (defaultArray s'))
          = cardVerticesOf (Bitmap plainProps (Some 0) (Some ?r)) None 3 3
                       (appendMatrix identityMatrix (localMatrix plainProps)) ti
                       (jsMul (alpha plainProps) (Number 1))"
    by (auto simp: w)
  have u: "fst (hd (flippedCorners (jsDiv (Number 1) (Number (of_nat (3 :: nat))))
              (jsDiv (Number 1) (Number (of_nat (3 :: nat))))
              (jsDiv (jsAdd (Number 1) (Number 1)) (Number (of_nat (3 :: nat))))
              (jsDiv (jsAdd (Number 1) (Number 1)) (Number (of_nat (3 :: nat))))))
           = Number (11184811 / 33554432)"
    by code_simp
  have q: "jsDiv (Number 1) (Number 3) \<noteq> Number (11184811 / 33554432)"
    by code_simp
  let ?vs = "cardVerticesOf (Bitmap plainProps (Some 0) (Some ?r)) None 3 3
                       (appendMatrix identityMatrix (localMatrix plainProps)) ti
                       (jsMul (alpha plainProps) (Number 1))"
  have uv: "fst (hd (uvPairs ?vs)) = Number (11184811 / 33554432)"
    unfolding source_rect_uvs rect.select_convs by (rule u)
  have third: "Number (11184811 / 33554432) \<noteq> Number (1 / 3)" by simp
  have c2: "fst (hd (uvPairs ?vs)) \<noteq> Number (1 / 3)"
    unfolding uv by (rule third)
  have c3: "fst (hd (uvPairs ?vs)) \<noteq> jsDiv (Number 1) (Number 3)"
    unfolding uv by (rule q [symmetric])
  have "take INDICIES_PER_CARD (drop (n - INDICIES_PER_CARD) (defaultArray s')) = ?vs
            \<and> fst (hd (uvPairs ?vs)) = Number (11184811 / 33554432)
            \<and> fst (hd (uvPairs ?vs)) \<noteq> Number (1 / 3)
            \<and> fst (hd (uvPairs ?vs)) \<noteq> jsDiv (Number 1) (Number 3)"
    by (rule conjI a uv c2 c3)+
  then show ?thesis
    unfolding middlePixel_def sample_item_is_card r sum.case l option.case prod.case .
qed

subsection \<open>C1: the cursor stays within the capacity\<close>

lemma cursors_append [simp]: "cursors (es @ fs) = cursors es @ cursors fs"
  by (induction es rule: cursors.induct) simp_all

lemma constructor_capacity: "INDICIES_PER_CARD \<le> constructor_maxBatchVertexCount b"
  by (simp add: constructor_maxBatchVertexCount_def INDICIES_PER_CARD_def
      DEFAULT_MAX_BATCH_SIZE_def DEFAULT_MIN_BATCH_SIZE_def)

lemma capped_iff:
  "capped M s = (withinCapacity s \<and> maxBatchVertexCount s = M \<and> INDICIES_PER_CARD \<le> M)"
  by (auto simp: capped_def withinCapacity_def)

lemma flushed_capped: "capped M s \<Longrightarrow> capped M (flushed r s)"
  by (simp add: capped_def flushed_def renderBatch_def)

lemma updateRenderMode_capped:
  assumes "capped M s"
  shows "capped M (updateRenderMode h m s)"
proof -
  from updateRenderMode_shape [of h m s]
  consider bs where "updateRenderMode h m s = s\<lparr>builtShaders := bs\<rparr>"
    | n sd bs where "updateRenderMode h m s = switched n sd bs s"
    by blast
  then show ?thesis
  proof cases
    case 1
    with assms show ?thesis by (simp add: capped_def)
  next
    case 2
    with assms show ?thesis
      by (simp add: capped_def switched_def renderBatch_def)
  qed
qed

lemma sameBatch_capped: "capped M s \<Longrightarrow> sameBatch s s' \<Longrightarrow> capped M s'"
  by (simp add: capped_def sameBatch_def)

lemma writeCard_capped:
  assumes "capped M s"
    and "INDICIES_PER_CARD \<le> maxBatchVertexCount s
           \<longrightarrow> batchVertexCount s + INDICIES_PER_CARD \<le> maxBatchVertexCount s"
  shows "capped M (writeCard vs s)"
  using assms by (auto simp: capped_def writeCard_def split: config.splits)

lemma immediateBatchRender_capped:
  assumes "capped M s" and "immediateBatchRender h (s\<lparr>activeConfig := DefaultConfig\<rparr>) = Inr s'"
  shows "capped M s'"
proof -
  from immediateBatchRender_shape [OF assms(2)] obtain s4 and sd :: shaderData where
    sb: "sameBatch (s\<lparr>activeConfig := DefaultConfig\<rparr>) s4"
    and s': "s' = renderCover ((flushed ''immediatePrep'' (s4\<lparr>activeShader := MainShader\<rparr>))
                    \<lparr>batchReason := ''immediateResults'', activeShader := sd_shader sd\<rparr>)"
    by blast
  have "capped M (s\<lparr>activeConfig := DefaultConfig\<rparr>)"
    using assms(1) by (simp add: capped_def)
  then have "capped M s4" using sb by (rule sameBatch_capped)
  then have "capped M (s4\<lparr>activeShader := MainShader\<rparr>)"
    by (simp add: capped_def)
  then have "capped M (flushed ''immediatePrep'' (s4\<lparr>activeShader := MainShader\<rparr>))"
    by (rule flushed_capped)
  then show ?thesis
    unfolding s' by (simp add: capped_def renderCover_def)
qed

lemma capped_kept: "keptByCards h (capped M)"
  unfolding keptByCards_def
proof (intro conjI allI impI)
  fix item uc m a s s'
  assume p: "capped M s" and r: "appendCard h item uc m a s = Inr s'"
  show "capped M s'"
  proof (rule appendCard_invariant [where P = "capped M", OF _ _ _ _ _ _ _ p r])
    show "\<And>m s. capped M s \<Longrightarrow> capped M (updateRenderMode h m s)"
      by (rule updateRenderMode_capped)
    show "\<And>s. capped M s \<Longrightarrow> maxBatchVertexCount s < batchVertexCount s + INDICIES_PER_CARD
            \<Longrightarrow> capped M (flushed ''vertexOverflow'' s)"
      by (rule flushed_capped)
    show "\<And>i s. capped M s \<Longrightarrow> capped M (noted (ResolveTexture i) s)"
      by (simp add: capped_def noted_def)
    show "\<And>s. capped M s \<Longrightarrow> capped M (flushed ''textureOverflow'' s)"
      by (rule flushed_capped)
    show "\<And>s s'. capped M s \<Longrightarrow> sameBatch s s' \<Longrightarrow> capped M s'"
      by (rule sameBatch_capped)
    show "\<And>vs s. capped M s \<Longrightarrow> length vs = INDICIES_PER_CARD
            \<Longrightarrow> (INDICIES_PER_CARD \<le> maxBatchVertexCount s
                   \<longrightarrow> batchVertexCount s + INDICIES_PER_CARD \<le> maxBatchVertexCount s)
            \<Longrightarrow> capped M (writeCard vs s)"
      by (rule writeCard_capped)
    show "\<And>s s'. capped M s \<Longrightarrow> immediateRender s
            \<Longrightarrow> immediateBatchRender h (s\<lparr>activeConfig := DefaultConfig\<rparr>) = Inr s'
            \<Longrightarrow> capped M s'"
      by (rule immediateBatchRender_capped)
  qed
next
  fix m s assume "capped M s"
  then show "capped M (updateRenderMode h m s)" by (rule updateRenderMode_capped)
qed

lemma continues_refl: "continues [] s s"
  by (simp add: continues_def)

lemma continues_trans:
  "continues a s s1 \<Longrightarrow> continues b s1 s2 \<Longrightarrow> continues (b @ a) s s2"
  by (auto simp: continues_def)

lemma continues_quiet:
  "continues [] s s1 \<Longrightarrow> continues b s1 s2 \<Longrightarrow> continues b s s2"
  using continues_trans [of "[]" s s1 b s2] by simp

lemma continues_then_quiet:
  "continues a s s1 \<Longrightarrow> continues [] s1 s2 \<Longrightarrow> continues a s s2"
  using continues_trans [of a s s1 "[]" s2] by simp

lemma flushed_continues: "continues [] s (flushed r s)"
  by (simp add: continues_def flushed_def renderBatch_def)

lemma updateRenderMode_continues: "continues [] s (updateRenderMode h m s)"
proof -
  from updateRenderMode_shape [of h m s]
  consider bs where "updateRenderMode h m s = s\<lparr>builtShaders := bs\<rparr>"
    | n sd bs where "updateRenderMode h m s = switched n sd bs s"
    by blast
  then show ?thesis
    by cases (simp_all add: continues_def switched_def renderBatch_def)
qed

lemma sameBatch_continues: "sameBatch s s' \<Longrightarrow> continues [] s s'"
  by (simp add: continues_def sameBatch_def)

lemma resolveTexture_continues:
  assumes "resolveTexture h i s = Inr (rt, s')"
  shows "continues [] s s'"
proof -
  let ?n = "noted (ResolveTexture i) s"
  have n: "continues [] s ?n" by (simp add: continues_def noted_def)
  from resolveTexture_sameBatch [OF assms] show ?thesis
  proof
    assume "sameBatch ?n s'"
    then show ?thesis using n sameBatch_continues continues_quiet by blast
  next
    assume "sameBatch (flushed ''textureOverflow'' ?n) s'"
    then have "continues [] (flushed ''textureOverflow'' ?n) s'" by (rule sameBatch_continues)
    with flushed_continues [of ?n "''textureOverflow''"] have "continues [] ?n s'"
      by (rule continues_quiet)
    with n show ?thesis by (rule continues_quiet)
  qed
qed

lemma immediateBatchRender_continues:
  assumes "immediateBatchRender h s = Inr s'"
  shows "continues [] s s'"
proof -
  from immediateBatchRender_shape [OF assms] obtain s4 and sd :: shaderData where
    sb: "sameBatch s s4"
    and s': "s' = renderCover ((flushed ''immediatePrep'' (s4\<lparr>activeShader := MainShader\<rparr>))
                    \<lparr>batchReason := ''immediateResults'', activeShader := sd_shader sd\<rparr>)"
    by blast
  have "continues [] s4 s'"
    unfolding s' by (simp add: continues_def renderCover_def flushed_def renderBatch_def)
  with sameBatch_continues [OF sb] show ?thesis by (rule continues_quiet)
qed

lemma cardFinish_continues:
  assumes "cardFinish h item uc m a crm i t s = Inr s'"
  shows "continues [batchVertexCount s + INDICIES_PER_CARD] s s'"
proof -
  define s4 where "s4 = s\<lparr>images := (images s)(i := (images s i)\<lparr>img_drawID := Some (drawID s)\<rparr>)\<rparr>"
  define vs where "vs = cardVerticesOf item uc (img_width (images s4 i))
                          (img_height (images s4 i)) (appendMatrix m (localMatrix (propsOf item)))
                          (tex_activeIndex (textures s t)) (jsMul (alpha (propsOf item)) a)"
  define s5 where "s5 = writeCard vs s4"
  have w: "continues [batchVertexCount s + INDICIES_PER_CARD] s s5"
    by (simp add: continues_def s5_def writeCard_def s4_def split: config.splits)
  from assms have "(case (if immediateRender s5
               then immediateBatchRender h (s5\<lparr>activeConfig := DefaultConfig\<rparr>)
               else Inr s5) of
           Inl e \<Rightarrow> Inl e
         | Inr s6 \<Rightarrow> Inr (if renderMode s6 \<noteq> crm then updateRenderMode h (Some crm) s6 else s6))
         = Inr s'"
    unfolding cardFinish_def Let_def s5_def vs_def s4_def .
  then obtain s6 where
    i6: "(if immediateRender s5 then immediateBatchRender h (s5\<lparr>activeConfig := DefaultConfig\<rparr>)
          else Inr s5) = Inr s6"
    and s': "s' = (if renderMode s6 \<noteq> crm then updateRenderMode h (Some crm) s6 else s6)"
    by (auto split: sum.splits)
  have c56: "continues [] s5 s6"
  proof (cases "immediateRender s5")
    case True
    with i6 have "immediateBatchRender h (s5\<lparr>activeConfig := DefaultConfig\<rparr>) = Inr s6" by simp
    from immediateBatchRender_continues [OF this] show ?thesis by (simp add: continues_def)
  next
    case False
    with i6 show ?thesis by (simp add: continues_refl)
  qed
  have c6: "continues [] s6 s'"
    using updateRenderMode_continues continues_refl by (simp add: s')
  from continues_then_quiet [OF continues_then_quiet [OF w c56] c6] show ?thesis .
qed

lemma updateRenderMode_capacity:
  "maxBatchVertexCount (updateRenderMode h m s) = maxBatchVertexCount s"
proof -
  from updateRenderMode_shape [of h m s]
  consider bs where "updateRenderMode h m s = s\<lparr>builtShaders := bs\<rparr>"
    | n sd bs where "updateRenderMode h m s = switched n sd bs s"
    by blast
  then show ?thesis
    by cases (simp_all add: switched_def renderBatch_def)
qed

lemma overflow_flush_first:
  assumes cap: "INDICIES_PER_CARD \<le> maxBatchVertexCount s"
    and r: "appendCard h item uc m al s = Inr s'"
    and over: "maxBatchVertexCount (enterMode h (propsOf item) s)
                 < batchVertexCount (enterMode h (propsOf item) s) + INDICIES_PER_CARD"
  shows "\<exists>es d. history s' = es @ DrawArrays d # history (enterMode h (propsOf item) s)
           \<and> dc_reason d = ''vertexOverflow''
           \<and> dc_count d = batchVertexCount (enterMode h (propsOf item) s)
           \<and> set (cursors es) \<subseteq> {INDICIES_PER_CARD}"
proof -
  let ?s1 = "enterMode h (propsOf item) s"
  let ?s2 = "cardStart h item s"
  have s2: "?s2 = flushed ''vertexOverflow'' ?s1"
    using over by (simp add: cardStart_def enterMode_def Let_def)
  have "maxBatchVertexCount ?s1 = maxBatchVertexCount s"
    by (simp add: enterMode_def updateRenderMode_capacity)
  with cap over have pos: "0 < batchVertexCount ?s1" by simp
  define d where "d = \<lparr>dc_reason = ''vertexOverflow'', dc_count = batchVertexCount ?s1,
                        dc_mode = renderMode ?s1, dc_shader = activeShader ?s1,
                        dc_config = activeConfig ?s1,
                        dc_vertices = take (batchVertexCount ?s1) (activeArray ?s1)\<rparr>"
  have h2: "history ?s2 = DrawArrays d # history ?s1"
    using pos by (simp add: s2 flushed_def renderBatch_def d_def activeArray_def split: config.splits)
  have z2: "batchVertexCount ?s2 = 0"
    by (simp add: s2 flushed_def renderBatch_def)
  have dd: "dc_reason d = ''vertexOverflow'' \<and> dc_count d = batchVertexCount ?s1"
    by (simp add: d_def)
  have "\<exists>es. history s' = es @ history ?s2 \<and> set (cursors es) \<subseteq> {INDICIES_PER_CARD}"
  proof (cases "cardImage item uc")
    case None
    with r have "s' = ?s2" by (simp add: appendCard_parts)
    then show ?thesis by simp
  next
    case (Some i)
    with r obtain rt s3 where rs: "resolveTexture h i ?s2 = Inr (rt, s3)"
      by (auto simp: appendCard_parts split: sum.splits)
    note c3 = resolveTexture_continues [OF rs]
    have z3: "batchVertexCount s3 = 0"
      using resolveTexture_direct [OF rs] z2 by simp
    show ?thesis
    proof (cases rt)
      case None
      with r Some rs have "s' = s3" by (simp add: appendCard_parts)
      with c3 show ?thesis by (auto simp: continues_def)
    next
      case t: (Some t)
      with r Some rs have "cardFinish h item uc m al (renderMode s) i t s3 = Inr s'"
        by (simp add: appendCard_parts)
      from cardFinish_continues [OF this] c3 z3 show ?thesis
        by (auto simp: continues_def)
    qed
  qed
  then obtain es where "history s' = es @ DrawArrays d # history ?s1"
    "set (cursors es) \<subseteq> {INDICIES_PER_CARD}"
    using h2 by auto
  with dd show ?thesis by blast
qed

text \<open>
  C1. With the capacity the constructor configures, \<^verbatim>\<open>_appendToBatch\<close> keeps the batch
  within capacity: if the cursor and every cursor on record are at most
  \<^verbatim>\<open>_maxBatchVertexCount\<close> before, so they are after, whatever the display list, and
  the capacity is the same. And the check before a card is the flush the claim words:
  when, after the card's own mode switch, the cursor plus six exceeds the capacity, the
  record of the card starts with a draw call with the reason \<^verbatim>\<open>vertexOverflow\<close> over
  all pending vertices, and a card written after it leaves the cursor at six.
\<close>

theorem cursor_within_capacity:
  assumes "maxBatchVertexCount s = constructor_maxBatchVertexCount batchSize"
  shows "(withinCapacity s \<and> appendToBatch h c mt a ic s = Inr s'
            \<longrightarrow> withinCapacity s' \<and> maxBatchVertexCount s' = maxBatchVertexCount s)
     \<and> (appendCard h item uc m al s = Inr s''
          \<and> maxBatchVertexCount (enterMode h (propsOf item) s)
                < batchVertexCount (enterMode h (propsOf item) s) + INDICIES_PER_CARD
            \<longrightarrow> (\<exists>es d. history s'' = es @ DrawArrays d # history (enterMode h (propsOf item) s)
                   \<and> dc_reason d = ''vertexOverflow''
                   \<and> dc_count d = batchVertexCount (enterMode h (propsOf item) s)
                   \<and> set (cursors es) \<subseteq> {INDICIES_PER_CARD}))"
proof (intro conjI impI)
  have cap: "INDICIES_PER_CARD \<le> maxBatchVertexCount s"
    using assms constructor_capacity by simp
  {
    assume a: "withinCapacity s \<and> appendToBatch h c mt a ic s = Inr s'"
    with cap have "capped (maxBatchVertexCount s) s" by (simp add: capped_iff)
    from appendToBatch_kept [OF capped_kept this] a
    have "capped (maxBatchVertexCount s) s'" by blast
    then show "withinCapacity s'" and "maxBatchVertexCount s' = maxBatchVertexCount s"
      by (simp_all add: capped_iff)
  }
  {
    assume "appendCard h item uc m al s = Inr s''
          \<and> maxBatchVertexCount (enterMode h (propsOf item) s)
                < batchVertexCount (enterMode h (propsOf item) s) + INDICIES_PER_CARD"
    with cap show "\<exists>es d. history s'' = es @ DrawArrays d # history (enterMode h (propsOf item) s)
                   \<and> dc_reason d = ''vertexOverflow''
                   \<and> dc_count d = batchVertexCount (enterMode h (propsOf item) s)
                   \<and> set (cursors es) \<subseteq> {INDICIES_PER_CARD}"
      using overflow_flush_first by blast
  }
qed

lemma brim_card_returns:
  "\<exists>s'. appendCard (sampleHost 2) (Bitmap plainProps (Some 0) None) None identityMatrix (Number 1)
          brimStage = Inr s'"
proof -
  have "case appendCard (sampleHost 2) (Bitmap plainProps (Some 0) None) None identityMatrix
               (Number 1) brimStage of
          Inl e \<Rightarrow> False | Inr s' \<Rightarrow> True"
    by (simp add: brimStage_def plainProps_def sampleStage_def sampleHost_def
      appendCard_def truthy_def INDICIES_PER_CARD_def renderBatch_def resolveTexture_def
      sampleImages_def loadTextureImage_def registerImage_def getSafeTexture_def getBaseTexture_def
      arraySet_def trackImage_def blankTexture_def insertTextureInBatch_def occupiesRecordedSlot_def
      slotStart_def slotScan.simps slotEvictable_def setSlot_def refreshTexture_def
      updateTextureImageData_def stampTexture_def writeCard_def dictLookup_def
      activeArray_def Let_def)
  then show ?thesis by (auto split: sum.splits)
qed

lemma brim_facts:
  "maxBatchVertexCount brimStage = constructor_maxBatchVertexCount 170"
  "withinCapacity brimStage"
  "enterMode (sampleHost 2) plainProps brimStage = brimStage"
  "batchVertexCount brimStage = 1020" "maxBatchVertexCount brimStage = 1020"
  by (simp_all add: brimStage_def sampleStage_def maxv withinCapacity_def enterMode_def
      plainProps_def truthy_def)

text \<open>
  On the sample stage with its array full, whose capacity 1020 is the one the
  constructor configures for the batch size 170: a container with one bitmap, and the
  card of that bitmap.
\<close>

theorem cursor_within_capacity_witness:
  "maxBatchVertexCount brimStage = constructor_maxBatchVertexCount 170
   \<and> withinCapacity brimStage
   \<and> (\<exists>s'. appendToBatch (sampleHost 2) (Container plainProps [Bitmap plainProps (Some 0) None])
               identityMatrix (Number 1) False brimStage = Inr s'
          \<and> withinCapacity s' \<and> maxBatchVertexCount s' = maxBatchVertexCount brimStage)
   \<and> maxBatchVertexCount (enterMode (sampleHost 2) plainProps brimStage)
        < batchVertexCount (enterMode (sampleHost 2) plainProps brimStage) + INDICIES_PER_CARD
   \<and> (\<exists>s''. appendCard (sampleHost 2) (Bitmap plainProps (Some 0) None) None identityMatrix
                (Number 1) brimStage = Inr s''
          \<and> (\<exists>es d. history s'' = es @ DrawArrays d # history brimStage
                \<and> dc_reason d = ''vertexOverflow'' \<and> dc_count d = 1020
                \<and> set (cursors es) \<subseteq> {INDICIES_PER_CARD}))"
proof -
  let ?b = "Bitmap plainProps (Some 0) None"
  from brim_card_returns obtain s1 where
    c: "appendCard (sampleHost 2) ?b None identityMatrix (Number 1) brimStage = Inr s1"
    by blast
  have mi: "appendMatrix identityMatrix (localMatrix plainProps) = identityMatrix"
    by (simp add: plainProps_def appendMatrix_def identityMatrix_def) code_simp
  have t: "appendToBatch (sampleHost 2) (Container plainProps [?b]) identityMatrix (Number 1)
             False brimStage = Inr (restoreMode (sampleHost 2) (renderMode brimStage) s1)"
    unfolding appendToBatch_Container brim_facts(3) mi
    by (simp only: appendChildren.simps sample_item_is_card c sum.case)
  have over: "maxBatchVertexCount (enterMode (sampleHost 2) (propsOf ?b) brimStage)
        < batchVertexCount (enterMode (sampleHost 2) (propsOf ?b) brimStage) + INDICIES_PER_CARD"
    by (simp add: brim_facts(3,4,5) INDICIES_PER_CARD_def)
  note th = cursor_within_capacity [OF brim_facts(1), where h = "sampleHost 2"
      and c = "Container plainProps [?b]" and mt = identityMatrix and a = "Number 1"
      and ic = False and s' = "restoreMode (sampleHost 2) (renderMode brimStage) s1"
      and item = ?b and uc = None and m = identityMatrix and al = "Number 1" and s'' = s1]
  from th t brim_facts(2) have a: "withinCapacity (restoreMode (sampleHost 2) (renderMode brimStage) s1)
      \<and> maxBatchVertexCount (restoreMode (sampleHost 2) (renderMode brimStage) s1)
          = maxBatchVertexCount brimStage"
    by blast
  from th c over have b: "\<exists>es d. history s1 = es @ DrawArrays d # history brimStage
                \<and> dc_reason d = ''vertexOverflow'' \<and> dc_count d = 1020
                \<and> set (cursors es) \<subseteq> {INDICIES_PER_CARD}"
    by (simp add: brim_facts(3,4,5))
  have A: "\<exists>s'. appendToBatch (sampleHost 2) (Container plainProps [?b])
               identityMatrix (Number 1) False brimStage = Inr s'
          \<and> withinCapacity s' \<and> maxBatchVertexCount s' = maxBatchVertexCount brimStage"
    using t a by blast
  have B: "\<exists>s''. appendCard (sampleHost 2) ?b None identityMatrix (Number 1) brimStage = Inr s''
          \<and> (\<exists>es d. history s'' = es @ DrawArrays d # history brimStage
                \<and> dc_reason d = ''vertexOverflow'' \<and> dc_count d = 1020
                \<and> set (cursors es) \<subseteq> {INDICIES_PER_CARD})"
    using c b by blast
  from over have over': "maxBatchVertexCount (enterMode (sampleHost 2) plainProps brimStage)
        < batchVertexCount (enterMode (sampleHost 2) plainProps brimStage) + INDICIES_PER_CARD"
    by simp
  show ?thesis using brim_facts(1,2) A over' B by (intro conjI)
qed

end
